theory Spec2Isabelle
  imports Complex_Main "HOL-Library.AList" "HOL-Library.Multiset" "HOL-Library.Word"
begin

section \<open>The from-scratch kNN functions of the notebook\<close>

text \<open>
  The appendix of the kNN notebook defines four Python functions:
  \<^verbatim>\<open>euclidean_distance\<close>, \<^verbatim>\<open>get_neighbours\<close>, \<^verbatim>\<open>get_response\<close> and
  \<^verbatim>\<open>get_accuracy\<close>, and its last answer cell composes the second and the third.

  A Python exception is a value \<open>Inl e\<close> of a sum type; none of the functions catches an
  exception, so every \<open>Inl\<close> is what the caller sees.

  What the functions do depends on the objects they are given and on the interpreter:
  the arithmetic of the numbers, the order in which a \<^verbatim>\<open>dict\<close> yields its entries, the
  order in which \<^verbatim>\<open>np.argsort\<close> leaves equal values. Each of the three is a parameter
  of the model, with the instances that the notebook's own examples use: Python's
  unbounded integers and NumPy's 64-bit integers, the dictionaries of Python 3.7 and
  of the notebook's Python 3.5, NumPy's default sort. Floating-point numbers have no
  instance: a statement holds for them when it holds for every arithmetic. The result of
  \<^verbatim>\<open>math.sqrt\<close> is a real number, without the rounding of a float.
\<close>

datatype error = IndexError | ZeroDivisionError | OverflowError | ValueError

subsection \<open>Indexing\<close>

text \<open>
  \<^verbatim>\<open>xs[i]\<close> for an index \<open>i \<ge> 0\<close>: Python lists and NumPy arrays both raise IndexError
  when \<open>i\<close> is not below the length. Every index in the modelled code comes from
  \<^verbatim>\<open>range(...)\<close> or from \<^verbatim>\<open>np.argsort\<close>, so it is never negative.
\<close>

definition getitem :: "'a list \<Rightarrow> nat \<Rightarrow> error + 'a" where
  "getitem xs i = (if i < length xs then Inr (xs ! i) else Inl IndexError)"

subsection \<open>Numbers\<close>

text \<open>
  \<open>euclidean_distance\<close> applies four operations to the components of its arguments:
  \<^verbatim>\<open>x - y\<close>, \<^verbatim>\<open>d ** 2\<close>, \<^verbatim>\<open>distance += s\<close> (starting from the Python integer 0) and
  \<^verbatim>\<open>math.sqrt(distance)\<close>. Python finds them by the type of the operands, and each of
  them may raise.
\<close>

record 'n arithmetic =
  subtract :: "'n \<Rightarrow> 'n \<Rightarrow> error + 'n"
  squared :: "'n \<Rightarrow> error + 'n"
  accumulate :: "'n \<Rightarrow> 'n \<Rightarrow> error + 'n"
  initial :: "'n"
  math_sqrt :: "'n \<Rightarrow> error + real"

text \<open>
  Python integers (the components of the lists \<^verbatim>\<open>[0, 1, 2]\<close> and \<^verbatim>\<open>[0, 2, 4]\<close> of the
  notebook's first example) are unbounded, and their difference, square and sum are
  exact. \<^verbatim>\<open>math.sqrt\<close> first converts its argument to a float, rounding to nearest: an
  integer of absolute value \<open>2 ^ 1024 - 2 ^ 970\<close> or more has no float and the conversion
  raises OverflowError; then a negative argument raises ValueError.
\<close>

definition int_math_sqrt :: "int \<Rightarrow> error + real" where
  "int_math_sqrt n =
     (if 2 ^ 1024 - 2 ^ 970 \<le> \<bar>n\<bar> then Inl OverflowError
      else if n < 0 then Inl ValueError
      else Inr (sqrt (real_of_int n)))"

definition python_int :: "int arithmetic" where
  "python_int =
     \<lparr>subtract = (\<lambda>x y. Inr (x - y)),
      squared = (\<lambda>d. Inr (d\<^sup>2)),
      accumulate = (\<lambda>distance s. Inr (distance + s)),
      initial = 0,
      math_sqrt = int_math_sqrt\<rparr>"

text \<open>
  The elements of a NumPy array of integers (\<^verbatim>\<open>np.array([[2, 2, 2], [4, 4, 4]])\<close>) are
  64-bit signed integers (NumPy's default integer on Linux and macOS). Their difference, square and sum are again 64-bit integers and
  wrap around on overflow (NumPy warns and goes on); a Python integer of the 64-bit range
  that meets such a number, as a component of the list \<^verbatim>\<open>[5, 5, 5]\<close> or as the initial 0
  of \<open>distance\<close>, is converted to one. \<^verbatim>\<open>math.sqrt\<close> converts its argument to a float
  (every 64-bit integer has one) and raises ValueError when it is negative.
\<close>

definition int64_math_sqrt :: "64 word \<Rightarrow> error + real" where
  "int64_math_sqrt w =
     (if sint w < 0 then Inl ValueError else Inr (sqrt (real_of_int (sint w))))"

definition numpy_int64 :: "64 word arithmetic" where
  "numpy_int64 =
     \<lparr>subtract = (\<lambda>x y. Inr (x - y)),
      squared = (\<lambda>d. Inr (d * d)),
      accumulate = (\<lambda>distance s. Inr (distance + s)),
      initial = 0,
      math_sqrt = int64_math_sqrt\<rparr>"

subsection \<open>euclidean_distance\<close>

text \<open>
  \<^verbatim>\<open>
  def euclidean_distance(instance1, instance2):
      length = len(instance1)
      # You can also check if instance1 and instance2 have the same length.
      distance = 0
      for l in range(length):
          distance += (instance1[l] - instance2[l])**2
      return math.sqrt(distance)
  \<close>
  The loop is a recursion over the list of indices that \<^verbatim>\<open>range(length)\<close> yields,
  with the accumulator \<open>distance\<close>; \<open>add_squared_difference\<close> is the statement
  \<^verbatim>\<open>distance += (x - y)**2\<close> of its body, on the two components read. The first
  argument is the arithmetic of the components.
\<close>

definition add_squared_difference :: "'n arithmetic \<Rightarrow> 'n \<Rightarrow> 'n \<Rightarrow> 'n \<Rightarrow> error + 'n" where
  "add_squared_difference ar distance x y =
     (case subtract ar x y of
        Inl e \<Rightarrow> Inl e
      | Inr d \<Rightarrow>
          (case squared ar d of
             Inl e \<Rightarrow> Inl e
           | Inr s \<Rightarrow> accumulate ar distance s))"

fun distance_loop ::
  "'n arithmetic \<Rightarrow> 'n list \<Rightarrow> 'n list \<Rightarrow> nat list \<Rightarrow> 'n \<Rightarrow> error + 'n" where
  "distance_loop ar instance1 instance2 [] distance = Inr distance"
| "distance_loop ar instance1 instance2 (l # ls) distance =
     (case getitem instance1 l of
        Inl e \<Rightarrow> Inl e
      | Inr x \<Rightarrow>
          (case getitem instance2 l of
             Inl e \<Rightarrow> Inl e
           | Inr y \<Rightarrow>
               (case add_squared_difference ar distance x y of
                  Inl e \<Rightarrow> Inl e
                | Inr distance' \<Rightarrow> distance_loop ar instance1 instance2 ls distance')))"

definition euclidean_distance :: "'n arithmetic \<Rightarrow> 'n list \<Rightarrow> 'n list \<Rightarrow> error + real" where
  "euclidean_distance ar instance1 instance2 =
     (case distance_loop ar instance1 instance2 [0..<length instance1] (initial ar) of
        Inl e \<Rightarrow> Inl e
      | Inr distance \<Rightarrow> math_sqrt ar distance)"

subsection \<open>get_accuracy\<close>

text \<open>
  \<^verbatim>\<open>
  def get_accuracy(test_set, predictions):
      correct = 0
      for i in range(len(test_set)):
          # If the label of the test_set and the prediction are the same add one.
          if test_set[i] == predictions[i]:
              correct += 1
      return (float(correct) / float(len(test_set))) * 100.0
  \<close>
  The division is a division of Python floats, which raises ZeroDivisionError when the
  divisor is zero.
\<close>

fun accuracy_loop :: "'l list \<Rightarrow> 'l list \<Rightarrow> nat list \<Rightarrow> nat \<Rightarrow> error + nat" where
  "accuracy_loop test_set predictions [] correct = Inr correct"
| "accuracy_loop test_set predictions (i # is) correct =
     (case getitem test_set i of
        Inl e \<Rightarrow> Inl e
      | Inr t \<Rightarrow>
          (case getitem predictions i of
             Inl e \<Rightarrow> Inl e
           | Inr p \<Rightarrow>
               accuracy_loop test_set predictions is
                 (if t = p then correct + 1 else correct)))"

definition get_accuracy :: "'l list \<Rightarrow> 'l list \<Rightarrow> error + real" where
  "get_accuracy test_set predictions =
     (case accuracy_loop test_set predictions [0..<length test_set] 0 of
        Inl e \<Rightarrow> Inl e
      | Inr correct \<Rightarrow>
          (if length test_set = 0 then Inl ZeroDivisionError
           else Inr (real correct / real (length test_set) * 100)))"

subsection \<open>get_response\<close>

text \<open>
  \<^verbatim>\<open>
  def get_response(neighbours):
      class_votes = {}
      # Assign the votes for every class.
      for i in range(len(neighbours)):
          response = neighbours[i]
          if response in class_votes:
              class_votes[response] += 1
          else:
              class_votes[response] = 1

      # Use the dictionary to short which class has the most votes.
      sorted_votes = sorted(class_votes.items(), key=operator.itemgetter(1),
                            reverse=True)
      return sorted_votes[0][0]
  \<close>
  The contents of the dictionary \<open>class_votes\<close> are an association list that records
  the keys in the order of their insertion: \<^const>\<open>AList.update\<close> leaves an existing key
  at its position and puts a new key at the end. \<open>cast_vote\<close> is the \<^verbatim>\<open>if\<close> statement
  of the loop body.

  The order in which \<^verbatim>\<open>class_votes.items()\<close> yields the entries is the interpreter's:
  the order of insertion from Python 3.7 on, the order of the slots of the hash table on
  the Python 3.5.2 that the notebook declares. It is the parameter \<open>items\<close>.
\<close>

definition cast_vote :: "('l \<times> nat) list \<Rightarrow> 'l \<Rightarrow> ('l \<times> nat) list" where
  "cast_vote class_votes response =
     (case map_of class_votes response of
        Some n \<Rightarrow> AList.update response (n + 1) class_votes
      | None \<Rightarrow> AList.update response 1 class_votes)"

fun votes_loop :: "'l list \<Rightarrow> nat list \<Rightarrow> ('l \<times> nat) list \<Rightarrow> error + ('l \<times> nat) list" where
  "votes_loop neighbours [] class_votes = Inr class_votes"
| "votes_loop neighbours (i # is) class_votes =
     (case getitem neighbours i of
        Inl e \<Rightarrow> Inl e
      | Inr response \<Rightarrow> votes_loop neighbours is (cast_vote class_votes response))"

text \<open>
  \<^verbatim>\<open>sorted(xs, key=k, reverse=True)\<close>: Python's sort is stable, and with
  \<^verbatim>\<open>reverse=True\<close> it reverses the list, sorts it stably in ascending order and
  reverses the result, so that elements with equal keys keep their original order.
  \<^const>\<open>sort_key\<close> is a stable insertion sort.
\<close>

definition sorted_reverse :: "('a \<Rightarrow> 'k::linorder) \<Rightarrow> 'a list \<Rightarrow> 'a list" where
  "sorted_reverse key xs = rev (sort_key key (rev xs))"

definition get_response ::
  "(('l \<times> nat) list \<Rightarrow> ('l \<times> nat) list) \<Rightarrow> 'l list \<Rightarrow> error + 'l" where
  "get_response items neighbours =
     (case votes_loop neighbours [0..<length neighbours] [] of
        Inl e \<Rightarrow> Inl e
      | Inr class_votes \<Rightarrow>
          (case getitem (sorted_reverse snd (items class_votes)) 0 of
             Inl e \<Rightarrow> Inl e
           | Inr item \<Rightarrow> Inr (fst item)))"

text \<open>
  What every Python promises of \<^verbatim>\<open>items()\<close>: each entry of the dictionary, once.
\<close>

definition items_contract :: "(('l \<times> nat) list \<Rightarrow> ('l \<times> nat) list) \<Rightarrow> bool" where
  "items_contract items \<longleftrightarrow> (\<forall>class_votes. mset (items class_votes) = mset class_votes)"

text \<open>Python 3.7 and later: the entries in the order of insertion.\<close>

definition insertion_order :: "('l \<times> nat) list \<Rightarrow> ('l \<times> nat) list" where
  "insertion_order class_votes = class_votes"

text \<open>
  CPython 3.5: \<^verbatim>\<open>items()\<close> walks the slots of the hash table. A dictionary of up to five
  keys has eight slots, and the hash of a small integer (a Python integer or a NumPy
  one) is the integer itself, so the integer keys from 0 to 7 sit in the slots of their
  own numbers and come out in ascending order, whatever the order of their insertion.
  \<open>hash_slot_order\<close> is that order; it is CPython's for the dictionaries of this kind,
  those with \<open>small_int_keys\<close>, and only for them.
\<close>

definition small_int_keys :: "(int \<times> nat) list \<Rightarrow> bool" where
  "small_int_keys class_votes \<longleftrightarrow>
     length class_votes \<le> 5 \<and> list_all (\<lambda>item. 0 \<le> fst item \<and> fst item < 8) class_votes"

definition hash_slot_order :: "(int \<times> nat) list \<Rightarrow> (int \<times> nat) list" where
  "hash_slot_order class_votes = sort_key fst class_votes"

subsection \<open>get_neighbours\<close>

text \<open>
  \<^verbatim>\<open>
  def get_neighbours(data, labels, test_instance, K):
      distances = []
      neighbours = {}
      # Find the distances between all the points and create a list of tuples.
      for i in range(len(data)):
          dist = euclidean_distance(test_instance, data[i, :])
          distances.append([data[i, :], dist])

      # Sort the list of distances by using the second element of the tuple,
      # i.e. the distance.
      idx = np.argsort(np.array(distances)[:, 1])
      neighbours_data = data[idx]
      neighbours_label = labels[idx]

      neighbours = {'data': neighbours_data[:K], 'labels': neighbours_label[:K]}
      return neighbours
  \<close>
  \<open>data\<close> is a two-dimensional NumPy array, modelled as the list of its rows, and
  \<open>labels\<close> a one-dimensional one. The components of \<open>test_instance\<close> are of the type
  of those of \<open>data\<close> (with the arithmetic \<open>numpy_int64\<close>: a NumPy array of integers,
  or a list of Python integers of the 64-bit range). The returned dictionary has the two
  fixed keys \<^verbatim>\<open>'data'\<close> and \<^verbatim>\<open>'labels'\<close>: a record.
\<close>

record ('n, 'l) neighbours =
  data :: "'n list list"
  labels :: "'l list"

fun distances_loop ::
  "'n arithmetic \<Rightarrow> 'n list list \<Rightarrow> 'n list \<Rightarrow> nat list \<Rightarrow> ('n list \<times> real) list
     \<Rightarrow> error + ('n list \<times> real) list" where
  "distances_loop ar dat test_instance [] distances = Inr distances"
| "distances_loop ar dat test_instance (i # is) distances =
     (case getitem dat i of
        Inl e \<Rightarrow> Inl e
      | Inr row \<Rightarrow>
          (case euclidean_distance ar test_instance row of
             Inl e \<Rightarrow> Inl e
           | Inr d \<Rightarrow> distances_loop ar dat test_instance is (distances @ [(row, d)])))"

text \<open>
  \<^verbatim>\<open>np.array(distances)[:, 1]\<close>: for a non-empty list of \<^verbatim>\<open>[row, dist]\<close> pairs the
  array has one row per pair and two columns (of Python objects, since a row of the
  list holds an array and a float; NumPy builds such an array up to release 1.23), and
  the expression is the column of the distances. For the empty list \<^verbatim>\<open>np.array([])\<close>
  is one-dimensional, and indexing it with two indices raises IndexError (too many
  indices for array).
\<close>

definition distance_column :: "('n list \<times> real) list \<Rightarrow> error + real list" where
  "distance_column distances =
     (if distances = [] then Inl IndexError else Inr (map snd distances))"

text \<open>
  \<^verbatim>\<open>a[idx]\<close> for an array of indices: the elements of \<open>a\<close> at these indices, in the
  order of \<open>idx\<close>; IndexError when an index is out of bounds.
\<close>

definition take_indices :: "'a list \<Rightarrow> nat list \<Rightarrow> error + 'a list" where
  "take_indices a idx =
     (if \<forall>i\<in>set idx. i < length a then Inr (map (\<lambda>i. a ! i) idx) else Inl IndexError)"

text \<open>
  \<^verbatim>\<open>a[:K]\<close>: the first \<open>K\<close> elements, all of them when \<open>K\<close> exceeds the length; a
  negative \<open>K\<close> counts from the end.
\<close>

definition slice_to :: "'a list \<Rightarrow> int \<Rightarrow> 'a list" where
  "slice_to a K = (if 0 \<le> K then take (nat K) a else take (length a - nat (- K)) a)"

text \<open>
  \<^verbatim>\<open>np.argsort\<close> is NumPy's, not the notebook's: it is the parameter \<open>argsort\<close> of the
  model, from the column of distances to the array of indices.
\<close>

definition get_neighbours ::
  "(real list \<Rightarrow> nat list) \<Rightarrow> 'n arithmetic \<Rightarrow> 'n list list \<Rightarrow> 'l list \<Rightarrow> 'n list \<Rightarrow> int
     \<Rightarrow> error + ('n, 'l) neighbours" where
  "get_neighbours argsort ar dat labs test_instance K =
     (case distances_loop ar dat test_instance [0..<length dat] [] of
        Inl e \<Rightarrow> Inl e
      | Inr distances \<Rightarrow>
          (case distance_column distances of
             Inl e \<Rightarrow> Inl e
           | Inr dists \<Rightarrow>
               (let idx = argsort dists in
                case take_indices dat idx of
                  Inl e \<Rightarrow> Inl e
                | Inr neighbours_data \<Rightarrow>
                    (case take_indices labs idx of
                       Inl e \<Rightarrow> Inl e
                     | Inr neighbours_label \<Rightarrow>
                         Inr \<lparr>data = slice_to neighbours_data K,
                              labels = slice_to neighbours_label K\<rparr>))))"

subsection \<open>The classification cell\<close>

text \<open>
  The answer cell of the notebook classifies a test instance with the two statements
  \<^verbatim>\<open>
  neighbours = get_neighbours(training_set, training_labels, test_instance, K)
  label = get_response(neighbours['labels'])
  \<close>
\<close>

definition classify ::
  "(real list \<Rightarrow> nat list) \<Rightarrow> (('l \<times> nat) list \<Rightarrow> ('l \<times> nat) list) \<Rightarrow> 'n arithmetic
     \<Rightarrow> 'n list list \<Rightarrow> 'l list \<Rightarrow> 'n list \<Rightarrow> int \<Rightarrow> error + 'l" where
  "classify argsort items ar training_set training_labels test_instance K =
     (case get_neighbours argsort ar training_set training_labels test_instance K of
        Inl e \<Rightarrow> Inl e
      | Inr neighbours \<Rightarrow> get_response items (labels neighbours))"

subsection \<open>np.argsort\<close>

text \<open>
  What NumPy documents of \<^verbatim>\<open>np.argsort(a)\<close>: it returns the indices that would sort
  \<open>a\<close>, a permutation of \<open>0, ..., len(a) - 1\<close> along which the values do not decrease.
  The default \<^verbatim>\<open>kind='quicksort'\<close> is documented as not stable: the order of the indices
  of equal values is not part of the contract.
\<close>

definition is_argsort :: "real list \<Rightarrow> nat list \<Rightarrow> bool" where
  "is_argsort keys idx \<longleftrightarrow>
     length idx = length keys \<and> distinct idx \<and> (\<forall>i\<in>set idx. i < length keys)
     \<and> sorted (map (\<lambda>i. keys ! i) idx)"

definition argsort_contract :: "(real list \<Rightarrow> nat list) \<Rightarrow> bool" where
  "argsort_contract argsort \<longleftrightarrow> (\<forall>keys. is_argsort keys (argsort keys))"

text \<open>\<^verbatim>\<open>np.argsort(a, kind='stable')\<close>: equal values keep the order of their indices.\<close>

definition stable_argsort :: "real list \<Rightarrow> nat list" where
  "stable_argsort keys = sort_key (\<lambda>i. keys ! i) [0..<length keys]"

text \<open>
  The default sort, which is the one \<open>get_neighbours\<close> calls. The column of distances is
  an array of Python objects, which NumPy (1.12 to 1.23) sorts with the generic index
  sort \<^verbatim>\<open>npy_aquicksort\<close> of its \<^verbatim>\<open>npysort\<close>: an introsort on the array \<open>tosort\<close> of
  indices, which starts as \<open>0, ..., num - 1\<close>. It is transcribed below.
  \<^verbatim>\<open>
  npy_intp *pl = tosort, *pr = tosort + num - 1;
  int cdepth = npy_get_msb(num) * 2;
  while (1) {
      if (cdepth < 0) { npy_aheapsort(vv, pl, pr - pl + 1, varr); goto stack_pop; }
      while ((pr - pl) > SMALL_QUICKSORT) {
          /* quicksort partition */
          pm = pl + ((pr - pl) >> 1);
          if (v[*pm] < v[*pl]) INTP_SWAP(*pm, *pl);
          if (v[*pr] < v[*pm]) INTP_SWAP(*pr, *pm);
          if (v[*pm] < v[*pl]) INTP_SWAP(*pm, *pl);
          vp = v[*pm];
          pi = pl;
          pj = pr - 1;
          INTP_SWAP(*pm, *pj);
          for (;;) {
              do { ++pi; } while (v[*pi] < vp);
              do { --pj; } while (vp < v[*pj]);
              if (pi >= pj) break;
              INTP_SWAP(*pi, *pj);
          }
          pk = pr - 1;
          INTP_SWAP(*pi, *pk);
          /* push largest partition on stack */
          if (pi - pl < pr - pi) { *sptr++ = pi + 1; *sptr++ = pr; pr = pi - 1; }
          else { *sptr++ = pl; *sptr++ = pi - 1; pl = pi + 1; }
          *psdepth++ = --cdepth;
      }
      /* insertion sort */
      for (pi = pl + 1; pi <= pr; ++pi) {
          vi = *pi; vp = v[vi]; pj = pi; pk = pi - 1;
          while (pj > pl && vp < v[*pk]) { *pj-- = *pk--; }
          *pj = vi;
      }
  stack_pop:
      if (sptr == stack) break;
      pr = *(--sptr); pl = *(--sptr); cdepth = *(--psdepth);
  }
  \<close>
  with \<^verbatim>\<open>SMALL_QUICKSORT\<close> equal to 15: a partition of seventeen elements or more is
  split around a pivot, a smaller one is sorted by insertion. Pointers into \<open>tosort\<close>
  are positions \<open>p_l\<close>, \<open>p_r\<close>, \<open>p_i\<close>, ... in the list \<open>t\<close>; \<open>v\<close> is the array of keys.
\<close>

definition swap :: "nat list \<Rightarrow> nat \<Rightarrow> nat \<Rightarrow> nat list" where
  "swap tosort p q = tosort[p := tosort ! q, q := tosort ! p]"

text \<open>\<^verbatim>\<open>while (unum >>= 1) depth_limit++;\<close>\<close>

fun npy_get_msb :: "nat \<Rightarrow> nat" where
  "npy_get_msb unum = (if unum div 2 = 0 then 0 else 1 + npy_get_msb (unum div 2))"

declare npy_get_msb.simps [simp del]

definition median_of_three :: "real list \<Rightarrow> nat list \<Rightarrow> nat \<Rightarrow> nat \<Rightarrow> nat \<Rightarrow> nat list" where
  "median_of_three v t p_l p_m p_r =
     (let t1 = (if v ! (t ! p_m) < v ! (t ! p_l) then swap t p_m p_l else t);
          t2 = (if v ! (t1 ! p_r) < v ! (t1 ! p_m) then swap t1 p_r p_m else t1)
      in if v ! (t2 ! p_m) < v ! (t2 ! p_l) then swap t2 p_m p_l else t2)"

text \<open>
  The two scans of the partition loop, \<^verbatim>\<open>do ++pi while (v[*pi] < vp)\<close> and
  \<^verbatim>\<open>do --pj while (vp < v[*pj])\<close>. In the C code the pivot at \<open>pr - 1\<close> and the
  median-of-three element at \<open>pl\<close> stop them inside the partition; the tests against
  \<open>hi\<close> and \<open>lo\<close> say the same and make the recursion well-founded.
\<close>

function scan_up :: "real list \<Rightarrow> real \<Rightarrow> nat \<Rightarrow> nat list \<Rightarrow> nat \<Rightarrow> nat" where
  "scan_up v vp hi t p_i =
     (if p_i + 1 < hi \<and> v ! (t ! (p_i + 1)) < vp then scan_up v vp hi t (p_i + 1) else p_i + 1)"
  by pat_completeness auto
termination
  by (relation "measure (\<lambda>(v, vp, hi, t, p_i). hi - p_i)") auto

function scan_down :: "real list \<Rightarrow> real \<Rightarrow> nat \<Rightarrow> nat list \<Rightarrow> nat \<Rightarrow> nat" where
  "scan_down v vp lo t p_j =
     (if lo < p_j - 1 \<and> vp < v ! (t ! (p_j - 1)) then scan_down v vp lo t (p_j - 1) else p_j - 1)"
  by pat_completeness auto
termination
  by (relation "measure (\<lambda>(v, vp, lo, t, p_j). p_j)") auto

declare scan_up.simps [simp del] scan_down.simps [simp del]

lemma scan_up_greater: "p_i < scan_up v vp hi t p_i"
  by (induction v vp hi t p_i rule: scan_up.induct) (subst scan_up.simps, auto)

lemma scan_up_bound: "p_i < hi \<Longrightarrow> scan_up v vp hi t p_i \<le> hi"
  by (induction v vp hi t p_i rule: scan_up.induct) (subst scan_up.simps, auto)

lemma scan_down_bound: "scan_down v vp lo t p_j \<le> p_j"
  by (induction v vp lo t p_j rule: scan_down.induct) (subst scan_down.simps, auto)

function partition_loop ::
  "real list \<Rightarrow> real \<Rightarrow> nat \<Rightarrow> nat \<Rightarrow> nat list \<Rightarrow> nat \<Rightarrow> nat \<Rightarrow> nat list \<times> nat" where
  "partition_loop v vp lo hi t p_i p_j =
     (let i = scan_up v vp hi t p_i; j = scan_down v vp lo t p_j
      in if j \<le> i then (t, i) else partition_loop v vp lo hi (swap t i j) i j)"
  by pat_completeness auto
termination
proof (relation "measure (\<lambda>(v, vp, lo, hi, t, p_i, p_j). p_j - p_i)", goal_cases)
  case 1
  then show ?case by simp
next
  case (2 v vp lo hi t p_i p_j i j)
  have "p_i < i" using 2(1) by (simp add: scan_up_greater)
  moreover have "j \<le> p_j" using 2(2) by (simp add: scan_down_bound)
  ultimately show ?case using 2(3) by simp
qed

declare partition_loop.simps [simp del]

lemma partition_loop_bounds:
  "p_i < hi \<Longrightarrow> p_j \<le> hi \<Longrightarrow>
   p_i < snd (partition_loop v vp lo hi t p_i p_j) \<and> snd (partition_loop v vp lo hi t p_i p_j) \<le> hi"
proof (induction v vp lo hi t p_i p_j rule: partition_loop.induct)
  case (1 v vp lo hi t p_i p_j)
  let ?i = "scan_up v vp hi t p_i" and ?j = "scan_down v vp lo t p_j"
  have i: "p_i < ?i" "?i \<le> hi" using 1(2) by (simp_all add: scan_up_greater scan_up_bound)
  have j: "?j \<le> hi" using 1(3) scan_down_bound [of v vp lo t p_j] by simp
  show ?case
  proof (cases "?j \<le> ?i")
    case True
    then show ?thesis using i by (subst (1 2) partition_loop.simps) (simp add: Let_def)
  next
    case False
    then have "?i < hi" using j by simp
    with 1(1) [OF refl refl False] j
    have "?i < snd (partition_loop v vp lo hi (swap t ?i ?j) ?i ?j)
          \<and> snd (partition_loop v vp lo hi (swap t ?i ?j) ?i ?j) \<le> hi" by simp
    then show ?thesis using i False by (subst (1 2) partition_loop.simps) (simp add: Let_def)
  qed
qed

definition aquicksort_partition :: "real list \<Rightarrow> nat list \<Rightarrow> nat \<Rightarrow> nat \<Rightarrow> nat list \<times> nat" where
  "aquicksort_partition v t p_l p_r =
     (let p_m = p_l + (p_r - p_l) div 2;
          t1 = median_of_three v t p_l p_m p_r;
          vp = v ! (t1 ! p_m);
          t2 = swap t1 p_m (p_r - 1);
          (t3, p_i) = partition_loop v vp p_l (p_r - 1) t2 p_l (p_r - 1)
      in (swap t3 p_i (p_r - 1), p_i))"

lemma aquicksort_partition_bounds:
  assumes "p_l + 1 < p_r"
  shows "p_l < snd (aquicksort_partition v t p_l p_r) \<and> snd (aquicksort_partition v t p_l p_r) < p_r"
proof -
  let ?p_m = "p_l + (p_r - p_l) div 2"
  let ?t1 = "median_of_three v t p_l ?p_m p_r"
  let ?loop = "partition_loop v (v ! (?t1 ! ?p_m)) p_l (p_r - 1) (swap ?t1 ?p_m (p_r - 1))
                 p_l (p_r - 1)"
  have "p_l < p_r - 1" using assms by simp
  then have "p_l < snd ?loop \<and> snd ?loop \<le> p_r - 1"
    by (intro partition_loop_bounds) simp_all
  moreover have "snd (aquicksort_partition v t p_l p_r) = snd ?loop"
    by (simp add: aquicksort_partition_def Let_def split_beta)
  ultimately show ?thesis using assms by linarith
qed

text \<open>The insertion sort of the positions \<open>p_l, ..., p_r\<close>; \<open>shift_up\<close> is its inner loop.\<close>

function shift_up :: "real list \<Rightarrow> real \<Rightarrow> nat \<Rightarrow> nat list \<Rightarrow> nat \<Rightarrow> nat list \<times> nat" where
  "shift_up v vp p_l t p_j =
     (if p_l < p_j \<and> vp < v ! (t ! (p_j - 1))
      then shift_up v vp p_l (t[p_j := t ! (p_j - 1)]) (p_j - 1)
      else (t, p_j))"
  by pat_completeness auto
termination
  by (relation "measure (\<lambda>(v, vp, p_l, t, p_j). p_j)") auto

declare shift_up.simps [simp del]

fun insertion_sort :: "real list \<Rightarrow> nat \<Rightarrow> nat list \<Rightarrow> nat list \<Rightarrow> nat list" where
  "insertion_sort v p_l [] t = t"
| "insertion_sort v p_l (p_i # ps) t =
     (let vi = t ! p_i;
          (t', p_j) = shift_up v (v ! vi) p_l t p_i
      in insertion_sort v p_l ps (t'[p_j := vi]))"

lemma aquicksort_partition_smaller:
  assumes "15 < p_r - p_l"
  shows "snd (aquicksort_partition v t p_l p_r) - Suc p_l < p_r - p_l"
    and "p_r - Suc (snd (aquicksort_partition v t p_l p_r)) < p_r - p_l"
proof -
  have "p_l + 1 < p_r" using assms by simp
  then have "p_l < snd (aquicksort_partition v t p_l p_r)
             \<and> snd (aquicksort_partition v t p_l p_r) < p_r"
    by (rule aquicksort_partition_bounds)
  then show "snd (aquicksort_partition v t p_l p_r) - Suc p_l < p_r - p_l"
    and "p_r - Suc (snd (aquicksort_partition v t p_l p_r)) < p_r - p_l"
    by linarith+
qed

text \<open>
  The heapsort that takes over a partition when the depth of the recursion is used up,
  \<^verbatim>\<open>npy_aheapsort(vv, pl, n, varr)\<close> on the \<open>n\<close> indices from \<open>pl\<close> on:
  \<^verbatim>\<open>
  a = tosort - 1;            /* the array is indexed from 1 */
  for (l = n >> 1; l > 0; --l) {
      tmp = a[l];
      for (i = l, j = l << 1; j <= n;) {
          if (j < n && v[a[j]] < v[a[j + 1]]) j += 1;
          if (v[tmp] < v[a[j]]) { a[i] = a[j]; i = j; j += j; }
          else break;
      }
      a[i] = tmp;
  }
  for (; n > 1;) {
      tmp = a[n]; a[n] = a[1]; n -= 1;
      for (i = 1, j = 2; j <= n;) {
          if (j < n && v[a[j]] < v[a[j + 1]]) j++;
          if (v[tmp] < v[a[j]]) { a[i] = a[j]; i = j; j += j; }
          else break;
      }
      a[i] = tmp;
  }
  \<close>
  \<open>a[k]\<close> is the position \<open>p_l + k - 1\<close> of \<open>t\<close>; \<open>sift_down\<close> is the inner loop of both
  loops (its test \<open>0 < j\<close> holds in every call and makes the recursion well-founded).
\<close>

function sift_down ::
  "real list \<Rightarrow> nat \<Rightarrow> nat \<Rightarrow> nat \<Rightarrow> nat list \<Rightarrow> nat \<Rightarrow> nat \<Rightarrow> nat list \<times> nat" where
  "sift_down v p_l tmp n t i j =
     (if 0 < j \<and> j \<le> n then
        (let j1 = (if j < n \<and> v ! (t ! (p_l + j - 1)) < v ! (t ! (p_l + j)) then j + 1 else j)
         in if v ! tmp < v ! (t ! (p_l + j1 - 1))
            then sift_down v p_l tmp n (t[p_l + i - 1 := t ! (p_l + j1 - 1)]) j1 (j1 + j1)
            else (t, i))
      else (t, i))"
  by pat_completeness auto
termination
  by (relation "measure (\<lambda>(v, p_l, tmp, n, t, i, j). n + 1 - j)") auto

declare sift_down.simps [simp del]

fun build_heap :: "real list \<Rightarrow> nat \<Rightarrow> nat \<Rightarrow> nat list \<Rightarrow> nat list \<Rightarrow> nat list" where
  "build_heap v p_l n [] t = t"
| "build_heap v p_l n (l # ls) t =
     (let tmp = t ! (p_l + l - 1);
          (t', i) = sift_down v p_l tmp n t l (l + l)
      in build_heap v p_l n ls (t'[p_l + i - 1 := tmp]))"

fun take_maxima :: "real list \<Rightarrow> nat \<Rightarrow> nat list \<Rightarrow> nat list \<Rightarrow> nat list" where
  "take_maxima v p_l [] t = t"
| "take_maxima v p_l (n # ns) t =
     (let tmp = t ! (p_l + n - 1);
          t1 = t[p_l + n - 1 := t ! p_l];
          (t2, i) = sift_down v p_l tmp (n - 1) t1 1 2
      in take_maxima v p_l ns (t2[p_l + i - 1 := tmp]))"

definition npy_aheapsort :: "real list \<Rightarrow> nat \<Rightarrow> nat \<Rightarrow> nat list \<Rightarrow> nat list" where
  "npy_aheapsort v p_l n t =
     take_maxima v p_l (rev [2..<n + 1]) (build_heap v p_l n (rev [1..<n div 2 + 1]) t)"

text \<open>
  The outer loop with its stack, as a recursion on the partitions: the smaller partition
  is sorted first, without a test of \<open>cdepth\<close>, then the one that was pushed, which is
  popped and meets the test \<^verbatim>\<open>cdepth < 0\<close> (the flag \<open>popped\<close>).
\<close>

function aquicksort_range ::
  "real list \<Rightarrow> bool \<Rightarrow> int \<Rightarrow> nat list \<Rightarrow> nat \<Rightarrow> nat \<Rightarrow> nat list" where
  "aquicksort_range v popped cdepth t p_l p_r =
     (if popped \<and> cdepth < 0 then npy_aheapsort v p_l (p_r - p_l + 1) t
      else if 15 < p_r - p_l then
        (let part = aquicksort_partition v t p_l p_r; p_i = snd part
         in if p_i - p_l < p_r - p_i
            then aquicksort_range v True (cdepth - 1)
                   (aquicksort_range v False (cdepth - 1) (fst part) p_l (p_i - 1)) (p_i + 1) p_r
            else aquicksort_range v True (cdepth - 1)
                   (aquicksort_range v False (cdepth - 1) (fst part) (p_i + 1) p_r) p_l (p_i - 1))
      else insertion_sort v p_l [p_l + 1 ..< p_r + 1] t)"
  by pat_completeness auto
termination
  by (relation "measure (\<lambda>(v, popped, cdepth, t, p_l, p_r). p_r - p_l)")
    (simp_all add: aquicksort_partition_smaller)

declare aquicksort_range.simps [simp del]

definition npy_aquicksort :: "real list \<Rightarrow> nat list" where
  "npy_aquicksort v =
     (let num = length v
      in aquicksort_range v True (2 * int (npy_get_msb num)) [0..<num] 0 (num - 1))"

text \<open>\<^verbatim>\<open>np.argsort\<close> with its default sort, as an argument for \<open>get_neighbours\<close>.\<close>

definition np_argsort :: "real list \<Rightarrow> nat list" where
  "np_argsort keys = npy_aquicksort keys"

subsection \<open>Auxiliary notions\<close>

text \<open>
  The distinct elements of a list in the order of their first occurrence, and the
  contents of \<open>class_votes\<close> after the loop of \<open>get_response\<close>: each label once, in this
  order, with the number of its occurrences.
\<close>

fun first_seen :: "'a list \<Rightarrow> 'a list" where
  "first_seen [] = []"
| "first_seen (x # xs) = x # removeAll x (first_seen xs)"

definition vote_counts :: "'l list \<Rightarrow> ('l \<times> nat) list" where
  "vote_counts neighbours = map (\<lambda>k. (k, count_list neighbours k)) (first_seen neighbours)"

section \<open>Properties of euclidean_distance\<close>

lemma getitem_take: "l < n \<Longrightarrow> getitem (take n b) l = getitem b l"
  by (simp add: getitem_def)

lemma distance_loop_take:
  "\<forall>l\<in>set ls. l < n \<Longrightarrow> distance_loop ar a (take n b) ls d = distance_loop ar a b ls d"
  by (induction ls arbitrary: d) (simp_all add: getitem_take cong: sum.case_cong)

lemma euclidean_distance_take:
  assumes "length a \<le> length b"
  shows "euclidean_distance ar a (take (length a) b) = euclidean_distance ar a b"
proof -
  have "distance_loop ar a (take (length a) b) [0..<length a] (initial ar)
          = distance_loop ar a b [0..<length a] (initial ar)"
    by (intro distance_loop_take) simp
  then show ?thesis by (simp add: euclidean_distance_def)
qed

lemma distance_loop_fails:
  "\<exists>l\<in>set ls. \<not> l < length b \<Longrightarrow> \<exists>e. distance_loop ar a b ls d = Inl e"
proof (induction ls arbitrary: d)
  case Nil
  then show ?case by simp
next
  case (Cons l ls)
  show ?case
  proof (cases "l < length b")
    case True
    with Cons.prems have "\<exists>l\<in>set ls. \<not> l < length b" by auto
    then have rest: "\<And>d'. \<exists>e. distance_loop ar a b ls d' = Inl e" by (rule Cons.IH)
    show ?thesis
    proof (cases "getitem a l")
      case (Inl e)
      then show ?thesis by simp
    next
      case x: (Inr x)
      show ?thesis
      proof (cases "add_squared_difference ar d x (b ! l)")
        case (Inl e)
        then show ?thesis using x True by (simp add: getitem_def)
      next
        case (Inr d')
        then show ?thesis using x True rest [of d'] by (simp add: getitem_def)
      qed
    qed
  next
    case False
    then show ?thesis by (cases "getitem a l") (simp_all add: getitem_def)
  qed
qed

lemma euclidean_distance_fails:
  assumes "length b < length a"
  shows "\<exists>e. euclidean_distance ar a b = Inl e"
proof -
  have "\<exists>l\<in>set [0..<length a]. \<not> l < length b" using assms by auto
  then have "\<exists>e. distance_loop ar a b [0..<length a] (initial ar) = Inl e"
    by (rule distance_loop_fails)
  then show ?thesis by (auto simp add: euclidean_distance_def)
qed

lemma python_int_loop_in_range:
  "\<forall>l\<in>set ls. l < length a \<and> l < length b \<Longrightarrow>
   distance_loop python_int a b ls d = Inr (d + (\<Sum>l\<leftarrow>ls. (a ! l - b ! l)\<^sup>2))"
  by (induction ls arbitrary: d) (simp_all add: getitem_def python_int_def add_squared_difference_def add.assoc)

lemma python_int_loop_out_of_range:
  "\<forall>l\<in>set ls. l < length a \<Longrightarrow> \<exists>l\<in>set ls. \<not> l < length b \<Longrightarrow>
   distance_loop python_int a b ls d = Inl IndexError"
  by (induction ls arbitrary: d) (auto simp add: getitem_def python_int_def add_squared_difference_def)

lemma sum_list_upt_sum: "(\<Sum>l\<leftarrow>[0..<n]. f l) = (\<Sum>i<n. f i)"
  for f :: "nat \<Rightarrow> 'a::comm_monoid_add"
  by (simp add: interv_sum_list_conv_sum_set_nat atLeast0LessThan)

lemma python_int_distance_sum:
  assumes "length a \<le> length b"
  shows "euclidean_distance python_int a b = int_math_sqrt (\<Sum>i<length a. (a ! i - b ! i)\<^sup>2)"
proof -
  have "distance_loop python_int a b [0..<length a] 0
          = Inr (0 + (\<Sum>l\<leftarrow>[0..<length a]. (a ! l - b ! l)\<^sup>2))"
    using assms by (intro python_int_loop_in_range) auto
  then show ?thesis
    by (simp add: euclidean_distance_def sum_list_upt_sum python_int_def)
qed

lemma python_int_distance_value:
  assumes "length a \<le> length b" and "(\<Sum>i<length a. (a ! i - b ! i)\<^sup>2) < 2 ^ 1024 - 2 ^ 970"
  shows "euclidean_distance python_int a b
           = Inr (sqrt (real_of_int (\<Sum>i<length a. (a ! i - b ! i)\<^sup>2)))"
proof -
  have "0 \<le> (\<Sum>i<length a. (a ! i - b ! i)\<^sup>2)" by (intro sum_nonneg) simp
  then show ?thesis
    using assms by (simp add: python_int_distance_sum int_math_sqrt_def)
qed

lemma python_int_distance_raises:
  assumes "length b < length a"
  shows "euclidean_distance python_int a b = Inl IndexError"
proof -
  have "distance_loop python_int a b [0..<length a] 0 = Inl IndexError"
    using assms by (intro python_int_loop_out_of_range) auto
  then show ?thesis by (simp add: euclidean_distance_def python_int_def)
qed

lemma int64_loop_in_range:
  "\<forall>l\<in>set ls. l < length a \<and> l < length b \<Longrightarrow>
   distance_loop numpy_int64 a b ls d
     = Inr (d + word_of_int (\<Sum>l\<leftarrow>ls. (sint (a ! l) - sint (b ! l))\<^sup>2))"
proof (induction ls arbitrary: d)
  case Nil
  then show ?case by simp
next
  case (Cons l ls)
  have "(a ! l - b ! l) * (a ! l - b ! l)
          = (word_of_int ((sint (a ! l) - sint (b ! l))\<^sup>2) :: 64 word)"
    by (simp add: power2_eq_square)
  then show ?case
    using Cons by (simp add: getitem_def numpy_int64_def add_squared_difference_def add.assoc)
qed

lemma int64_loop_out_of_range:
  "\<forall>l\<in>set ls. l < length a \<Longrightarrow> \<exists>l\<in>set ls. \<not> l < length b \<Longrightarrow>
   distance_loop numpy_int64 a b ls d = Inl IndexError"
  by (induction ls arbitrary: d) (auto simp add: getitem_def numpy_int64_def add_squared_difference_def)

lemma int64_distance_sum:
  assumes "length a \<le> length b"
  shows "euclidean_distance numpy_int64 a b
           = int64_math_sqrt (word_of_int (\<Sum>i<length a. (sint (a ! i) - sint (b ! i))\<^sup>2))"
proof -
  have "distance_loop numpy_int64 a b [0..<length a] 0
          = Inr (0 + word_of_int (\<Sum>l\<leftarrow>[0..<length a]. (sint (a ! l) - sint (b ! l))\<^sup>2))"
    using assms by (intro int64_loop_in_range) auto
  then show ?thesis
    by (simp add: euclidean_distance_def sum_list_upt_sum numpy_int64_def)
qed

lemma int64_distance_value:
  assumes "length a \<le> length b"
    and "(\<Sum>i<length a. (sint (a ! i) - sint (b ! i))\<^sup>2) < 2 ^ 63"
  shows "euclidean_distance numpy_int64 a b
           = Inr (sqrt (real_of_int (\<Sum>i<length a. (sint (a ! i) - sint (b ! i))\<^sup>2)))"
proof -
  let ?S = "\<Sum>i<length a. (sint (a ! i) - sint (b ! i))\<^sup>2"
  have nonneg: "0 \<le> ?S" by (intro sum_nonneg) simp
  have "sint (word_of_int ?S :: 64 word) = signed_take_bit (LENGTH(64) - 1) ?S"
    by (rule sint_sbintrunc')
  also have "\<dots> = ?S"
    using nonneg assms(2) by (intro signed_take_bit_int_eq_self) simp_all
  finally have "sint (word_of_int ?S :: 64 word) = ?S" .
  then show ?thesis
    using nonneg assms(1) by (simp only: int64_distance_sum int64_math_sqrt_def) simp
qed

lemma int64_distance_raises:
  assumes "length b < length a"
  shows "euclidean_distance numpy_int64 a b = Inl IndexError"
proof -
  have "distance_loop numpy_int64 a b [0..<length a] 0 = Inl IndexError"
    using assms by (intro int64_loop_out_of_range) auto
  then show ?thesis by (simp add: euclidean_distance_def numpy_int64_def)
qed




text \<open>
  Claim C10, as stated, fails: a second vector that is strictly longer than the first
  does not keep the call from raising. With 64-bit integers the squared difference of 0
  and 4000000000 wraps to a negative number, and \<^verbatim>\<open>math.sqrt\<close> raises ValueError.
\<close>

theorem euclidean_distance_longer_second_counterexample:
  "length [0 :: 64 word] < length [4000000000, 7 :: 64 word]
   \<and> euclidean_distance numpy_int64 [0] [4000000000, 7] = Inl ValueError"
  by (simp add: euclidean_distance_def upt_rec getitem_def numpy_int64_def
      add_squared_difference_def int64_math_sqrt_def)

text \<open>
  Claim C10, amended. When the second vector is strictly longer than the first, the
  trailing components of the second vector are ignored: the call does what it does on
  the second vector cut to the length of the first, in every arithmetic. It returns the
  Euclidean distance over the first \<open>length instance1\<close> dimensions when the sum of the
  squares is within the range of the arithmetic.
\<close>

theorem euclidean_distance_ignores_extra:
  "(length a < length b \<longrightarrow>
      euclidean_distance ar a b = euclidean_distance ar a (take (length a) b))
   \<and> (length p < length q \<and> (\<Sum>i<length p. (p ! i - q ! i)\<^sup>2) < 2 ^ 1024 - 2 ^ 970 \<longrightarrow>
      euclidean_distance python_int p q
        = Inr (sqrt (real_of_int (\<Sum>i<length p. (p ! i - q ! i)\<^sup>2))))
   \<and> (length v < length w \<and> (\<Sum>i<length v. (sint (v ! i) - sint (w ! i))\<^sup>2) < 2 ^ 63 \<longrightarrow>
      euclidean_distance numpy_int64 v w
        = Inr (sqrt (real_of_int (\<Sum>i<length v. (sint (v ! i) - sint (w ! i))\<^sup>2))))"
proof (intro conjI impI)
  assume "length a < length b"
  then show "euclidean_distance ar a b = euclidean_distance ar a (take (length a) b)"
    by (simp add: euclidean_distance_take)
next
  assume "length p < length q \<and> (\<Sum>i<length p. (p ! i - q ! i)\<^sup>2) < 2 ^ 1024 - 2 ^ 970"
  then show "euclidean_distance python_int p q
        = Inr (sqrt (real_of_int (\<Sum>i<length p. (p ! i - q ! i)\<^sup>2)))"
    by (intro python_int_distance_value) simp_all
next
  assume "length v < length w \<and> (\<Sum>i<length v. (sint (v ! i) - sint (w ! i))\<^sup>2) < 2 ^ 63"
  then show "euclidean_distance numpy_int64 v w
        = Inr (sqrt (real_of_int (\<Sum>i<length v. (sint (v ! i) - sint (w ! i))\<^sup>2)))"
    by (intro int64_distance_value) simp_all
qed

theorem euclidean_distance_ignores_extra_witness:
  "length [1 :: 64 word] < length [4, 7 :: 64 word]
   \<and> euclidean_distance numpy_int64 [1] [4, 7] = euclidean_distance numpy_int64 [1] [4]
   \<and> euclidean_distance numpy_int64 [1] [4, 7] = Inr 3
   \<and> euclidean_distance python_int [1] [4, 7] = Inr 3"
proof -
  have r: "sqrt 9 = 3" using real_sqrt_abs [of 3] by simp
  have "euclidean_distance numpy_int64 [1] [4, 7]
          = euclidean_distance numpy_int64 [1] (take (length [1 :: 64 word]) [4, 7])"
    using euclidean_distance_ignores_extra [of "[1 :: 64 word]" "[4, 7]" numpy_int64 "[]" "[]" "[]" "[]"]
    by simp
  moreover have "euclidean_distance numpy_int64 [1] [4, 7] = Inr 3"
    using euclidean_distance_ignores_extra [of "[]" "[] :: int list" python_int "[]" "[]" "[1]" "[4, 7]"] r
    by simp
  moreover have "euclidean_distance python_int [1] [4, 7] = Inr 3"
    using euclidean_distance_ignores_extra [of "[]" "[] :: int list" python_int "[1]" "[4, 7]" "[]" "[]"] r
    by simp
  ultimately show ?thesis by simp
qed

text \<open>
  Claim C2, as stated, fails: with a second vector longer than the first the call returns
  a distance. Here the lengths are 1 and 2, and the result is 0.
\<close>

theorem euclidean_distance_mismatch_counterexample:
  "length [0 :: int] \<noteq> length [0, 5 :: int]
   \<and> euclidean_distance python_int [0] [0, 5] = Inr 0"
  by (simp add: euclidean_distance_def upt_rec getitem_def python_int_def
      add_squared_difference_def int_math_sqrt_def)

text \<open>
  Claim C2, amended. When the second vector is shorter than the first,
  \<open>euclidean_distance\<close> raises, in every arithmetic, and no handler is in the way, so the
  caller gets the exception. With Python integers and with 64-bit integers what it
  raises then is IndexError (from the read \<^verbatim>\<open>instance2[l]\<close>), and these are all the
  errors of the two arithmetics: IndexError for a shorter second vector, and otherwise
  the error of \<^verbatim>\<open>math.sqrt\<close> on the sum, OverflowError for a Python integer from
  \<open>2 ^ 1024 - 2 ^ 970\<close> on, ValueError for a 64-bit sum that has wrapped to a negative
  number. A longer second vector raises nothing by itself.
\<close>

theorem euclidean_distance_error_cases:
  "(length b < length a \<longrightarrow> (\<exists>e. euclidean_distance ar a b = Inl e))
   \<and> ((euclidean_distance python_int p q = Inl e) =
        (length q < length p \<and> e = IndexError
         \<or> length p \<le> length q \<and> 2 ^ 1024 - 2 ^ 970 \<le> (\<Sum>i<length p. (p ! i - q ! i)\<^sup>2)
             \<and> e = OverflowError))
   \<and> ((euclidean_distance numpy_int64 v w = Inl e') =
        (length w < length v \<and> e' = IndexError
         \<or> length v \<le> length w
             \<and> sint (word_of_int (\<Sum>i<length v. (sint (v ! i) - sint (w ! i))\<^sup>2) :: 64 word) < 0
             \<and> e' = ValueError))"
proof (intro conjI impI)
  assume "length b < length a"
  then show "\<exists>e. euclidean_distance ar a b = Inl e" by (rule euclidean_distance_fails)
next
  show "(euclidean_distance python_int p q = Inl e) =
        (length q < length p \<and> e = IndexError
         \<or> length p \<le> length q \<and> 2 ^ 1024 - 2 ^ 970 \<le> (\<Sum>i<length p. (p ! i - q ! i)\<^sup>2)
             \<and> e = OverflowError)"
  proof (cases "length q < length p")
    case True
    then show ?thesis by (auto simp add: python_int_distance_raises)
  next
    case False
    then have le: "length p \<le> length q" by simp
    have "0 \<le> (\<Sum>i<length p. (p ! i - q ! i)\<^sup>2)" by (intro sum_nonneg) simp
    then show ?thesis
      using False le by (auto simp add: python_int_distance_sum int_math_sqrt_def)
  qed
next
  show "(euclidean_distance numpy_int64 v w = Inl e') =
        (length w < length v \<and> e' = IndexError
         \<or> length v \<le> length w
             \<and> sint (word_of_int (\<Sum>i<length v. (sint (v ! i) - sint (w ! i))\<^sup>2) :: 64 word) < 0
             \<and> e' = ValueError)"
  proof (cases "length w < length v")
    case True
    then show ?thesis by (auto simp add: int64_distance_raises)
  next
    case False
    then have le: "length v \<le> length w" by simp
    show ?thesis
      using False le by (auto simp only: int64_distance_sum int64_math_sqrt_def split: if_splits)
  qed
qed

theorem euclidean_distance_error_cases_witness:
  "length [0 :: int] < length [0, 5 :: int]
   \<and> euclidean_distance python_int [0, 5] [0] = Inl IndexError
   \<and> euclidean_distance numpy_int64 [0, 5] [0] = Inl IndexError"
proof -
  have "\<exists>e. euclidean_distance python_int [0, 5] [0] = Inl e"
    using euclidean_distance_error_cases
            [of "[0 :: int]" "[0, 5]" python_int "[]" "[]" IndexError "[]" "[]" IndexError]
    by simp
  then have "euclidean_distance python_int [0, 5] [0] = Inl IndexError"
    using euclidean_distance_error_cases
            [of "[] :: int list" "[]" python_int "[0, 5]" "[0]" _ "[]" "[]" IndexError]
    by auto
  moreover have "euclidean_distance numpy_int64 [0, 5] [0] = Inl IndexError"
    using euclidean_distance_error_cases
            [of "[] :: int list" "[]" python_int "[]" "[]" IndexError "[0, 5]" "[0]" IndexError]
    by simp
  ultimately show ?thesis by simp
qed

section \<open>Properties of get_accuracy\<close>

lemma accuracy_loop_in_range:
  "\<forall>i\<in>set ls. i < length t \<and> i < length p \<Longrightarrow>
   accuracy_loop t p ls c = Inr (c + length (filter (\<lambda>i. t ! i = p ! i) ls))"
  by (induction ls arbitrary: c) (simp_all add: getitem_def)

lemma accuracy_loop_out_of_range:
  "\<forall>i\<in>set ls. i < length t \<Longrightarrow> \<exists>i\<in>set ls. \<not> i < length p \<Longrightarrow>
   accuracy_loop t p ls c = Inl IndexError"
  by (induction ls arbitrary: c) (auto simp add: getitem_def)

lemma length_filter_upt_card: "length (filter P [0..<n]) = card {i. i < n \<and> P i}"
proof -
  have "card (set (filter P [0..<n])) = length (filter P [0..<n])"
    by (rule distinct_card) simp
  moreover have "set (filter P [0..<n]) = {i. i < n \<and> P i}" by auto
  ultimately show ?thesis by simp
qed

lemma get_accuracy_value:
  assumes "length t \<le> length p" and "t \<noteq> []"
  shows "get_accuracy t p
           = Inr (real (card {i. i < length t \<and> t ! i = p ! i}) / real (length t) * 100)"
proof -
  have "accuracy_loop t p [0..<length t] 0
          = Inr (0 + length (filter (\<lambda>i. t ! i = p ! i) [0..<length t]))"
    using assms(1) by (intro accuracy_loop_in_range) auto
  then show ?thesis
    using assms(2) by (simp add: get_accuracy_def length_filter_upt_card)
qed

lemma get_accuracy_raises_index:
  assumes "length p < length t"
  shows "get_accuracy t p = Inl IndexError"
proof -
  have "accuracy_loop t p [0..<length t] 0 = Inl IndexError"
    using assms by (intro accuracy_loop_out_of_range) auto
  then show ?thesis by (simp add: get_accuracy_def)
qed

lemma get_accuracy_raises_zero_division: "get_accuracy [] p = Inl ZeroDivisionError"
  by (simp add: get_accuracy_def)

text \<open>
  Claim C1, as stated, fails: \<open>get_accuracy\<close> multiplies the fraction by 100. For the
  labels \<open>a, a, b\<close> and the predictions \<open>a, a, a\<close> it returns 200/3, which is neither 2/3
  nor a number of the interval from 0 to 1.
\<close>

theorem get_accuracy_fraction_counterexample:
  "get_accuracy [''a'', ''a'', ''b''] [''a'', ''a'', ''a''] = Inr (200 / 3)
   \<and> get_accuracy [''a'', ''a'', ''b''] [''a'', ''a'', ''a''] \<noteq> Inr (2 / 3)
   \<and> (1 :: real) < 200 / 3"
  by (simp add: get_accuracy_def upt_rec getitem_def)

text \<open>
  Claim C1, amended. For label sequences of equal length that are not empty,
  \<open>get_accuracy\<close> returns 100 times the number of positions where the two agree divided
  by the length: a percentage between 0 and 100. For \<open>a, a, b\<close> against \<open>a, a, a\<close> it is
  200/3.
\<close>

theorem get_accuracy_percentage:
  "(length test_set = length predictions \<and> test_set \<noteq> [] \<longrightarrow>
      (\<exists>r. get_accuracy test_set predictions = Inr r
         \<and> r = 100 * (real (card {i. i < length test_set \<and> test_set ! i = predictions ! i})
                       / real (length test_set))
         \<and> 0 \<le> r \<and> r \<le> 100))
   \<and> get_accuracy [''a'', ''a'', ''b''] [''a'', ''a'', ''a''] = Inr (100 * (2 / 3))"
proof (intro conjI impI)
  assume h: "length test_set = length predictions \<and> test_set \<noteq> []"
  let ?c = "card {i. i < length test_set \<and> test_set ! i = predictions ! i}"
  let ?n = "length test_set"
  have "{i. i < ?n \<and> test_set ! i = predictions ! i} \<subseteq> {..<?n}" by auto
  then have "?c \<le> card {..<?n}" by (intro card_mono) simp_all
  then have le: "?c \<le> ?n" by simp
  have "test_set \<noteq> []" using h by blast
  then have pos: "0 < ?n" by simp
  have "real ?c / real ?n \<le> 1" using le pos by simp
  then have upper: "100 * (real ?c / real ?n) \<le> 100" by linarith
  have lower: "0 \<le> 100 * (real ?c / real ?n)" by simp
  have "get_accuracy test_set predictions = Inr (real ?c / real ?n * 100)"
    using h by (intro get_accuracy_value) auto
  then have "get_accuracy test_set predictions = Inr (100 * (real ?c / real ?n))"
    by (simp add: mult.commute)
  then show "\<exists>r. get_accuracy test_set predictions = Inr r
         \<and> r = 100 * (real ?c / real ?n) \<and> 0 \<le> r \<and> r \<le> 100"
    using upper lower by blast
next
  show "get_accuracy [''a'', ''a'', ''b''] [''a'', ''a'', ''a''] = Inr (100 * (2 / 3))"
    by (simp add: get_accuracy_def upt_rec getitem_def)
qed

theorem get_accuracy_percentage_witness:
  "length [True, False] = length [True, True] \<and> [True, False] \<noteq> []
   \<and> (\<exists>r. get_accuracy [True, False] [True, True] = Inr r \<and> 0 \<le> r \<and> r \<le> 100)
   \<and> get_accuracy [True, False] [True, True] = Inr 50"
proof -
  have "\<exists>r. get_accuracy [True, False] [True, True] = Inr r \<and> 0 \<le> r \<and> r \<le> 100"
    using get_accuracy_percentage [of "[True, False]" "[True, True]"] by auto
  moreover have "get_accuracy [True, False] [True, True] = Inr 50"
    by (simp add: get_accuracy_def upt_rec getitem_def)
  ultimately show ?thesis by simp
qed

text \<open>
  Claim C8, as stated, fails: with more predictions than true labels \<open>get_accuracy\<close>
  returns a score, computed from the first predictions only.
\<close>

theorem get_accuracy_mismatch_counterexample:
  "length [''a''] \<noteq> length [''a'', ''b''] \<and> get_accuracy [''a''] [''a'', ''b''] = Inr 100"
  by (simp add: get_accuracy_def upt_rec getitem_def)

text \<open>
  Claim C8, amended. \<open>get_accuracy\<close> raises in two cases only: IndexError when there are
  fewer predictions than true labels, and ZeroDivisionError when there is no true label.
  With more predictions than true labels (and at least one true label) it returns a
  score.
\<close>

theorem get_accuracy_error_iff:
  "(get_accuracy test_set predictions = Inl e) =
     (length predictions < length test_set \<and> e = IndexError
      \<or> test_set = [] \<and> e = ZeroDivisionError)"
proof (cases "length predictions < length test_set")
  case True
  then have "test_set \<noteq> []" by auto
  then show ?thesis using True by (auto simp add: get_accuracy_raises_index)
next
  case False
  show ?thesis
  proof (cases "test_set = []")
    case True
    then show ?thesis by (auto simp add: get_accuracy_raises_zero_division)
  next
    case nonempty: False
    have "length test_set \<le> length predictions" using False by simp
    then show ?thesis using False nonempty by (simp add: get_accuracy_value)
  qed
qed

theorem get_accuracy_error_iff_witness:
  "get_accuracy [''a'', ''b''] [''a''] = Inl IndexError
   \<and> get_accuracy ([] :: string list) [''a''] = Inl ZeroDivisionError"
  using get_accuracy_error_iff [of "[''a'', ''b'']" "[''a'']" IndexError]
    get_accuracy_error_iff [of "[] :: string list" "[''a'']" ZeroDivisionError]
  by simp

section \<open>Properties of get_response\<close>

lemma votes_loop_fold:
  "\<forall>i\<in>set is. i < length nb \<Longrightarrow>
   votes_loop nb is cv = Inr (fold (\<lambda>i cv. cast_vote cv (nb ! i)) is cv)"
  by (induction "is" arbitrary: cv) (simp_all add: getitem_def)

lemma votes_loop_all:
  "votes_loop nb [0..<length nb] cv = Inr (fold (\<lambda>x cv. cast_vote cv x) nb cv)"
proof -
  have "fold (\<lambda>i cv. cast_vote cv (nb ! i)) [0..<length nb] cv
        = fold (\<lambda>x cv. cast_vote cv x) (map (\<lambda>i. nb ! i) [0..<length nb]) cv"
    by (simp add: fold_map comp_def)
  then show ?thesis by (simp add: votes_loop_fold map_nth)
qed

lemma set_first_seen [simp]: "set (first_seen xs) = set xs"
  by (induction xs) auto

lemma distinct_first_seen [simp]: "distinct (first_seen xs)"
  by (induction xs) (auto simp add: distinct_removeAll)

lemma cast_vote_keys:
  "map fst (cast_vote cv x) = (if x \<in> set (map fst cv) then map fst cv else map fst cv @ [x])"
  by (simp add: cast_vote_def AList.update_keys split: option.split)

lemma cast_vote_map_of:
  "map_of (cast_vote cv x) = (map_of cv)(x \<mapsto> (case map_of cv x of None \<Rightarrow> 1 | Some n \<Rightarrow> n + 1))"
  by (simp add: cast_vote_def AList.update_conv' split: option.split)

lemma tally_keys:
  "map fst (fold (\<lambda>x cv. cast_vote cv x) xs cv)
     = map fst cv @ filter (\<lambda>k. k \<notin> set (map fst cv)) (first_seen xs)"
proof (induction xs arbitrary: cv)
  case Nil
  then show ?case by simp
next
  case (Cons x xs)
  show ?case
  proof (cases "x \<in> set (map fst cv)")
    case True
    have "filter (\<lambda>k. k \<notin> set (map fst cv)) (removeAll x (first_seen xs))
            = filter (\<lambda>k. k \<notin> set (map fst cv)) (first_seen xs)"
      using True by (auto simp add: removeAll_filter_not_eq intro: filter_cong)
    then show ?thesis using True by (simp add: Cons.IH cast_vote_keys)
  next
    case False
    have "filter (\<lambda>k. k \<notin> set (map fst cv @ [x])) (first_seen xs)
            = filter (\<lambda>k. k \<notin> set (map fst cv)) (removeAll x (first_seen xs))"
      by (auto simp add: removeAll_filter_not_eq intro: filter_cong)
    then show ?thesis using False by (simp add: Cons.IH cast_vote_keys)
  qed
qed

lemma tally_distinct:
  "distinct (map fst cv) \<Longrightarrow> distinct (map fst (fold (\<lambda>x cv. cast_vote cv x) xs cv))"
  by (induction xs arbitrary: cv) (simp_all add: cast_vote_keys)

lemma tally_map_of:
  "map_of (fold (\<lambda>x cv. cast_vote cv x) xs cv) k
     = (if k \<in> set xs \<or> k \<in> dom (map_of cv)
        then Some (count_list xs k + (case map_of cv k of None \<Rightarrow> 0 | Some n \<Rightarrow> n))
        else None)"
proof (induction xs arbitrary: cv)
  case Nil
  then show ?case by (auto split: option.split)
next
  case (Cons x xs)
  show ?case
    by (simp add: Cons.IH cast_vote_map_of) (auto split: option.split simp: domIff)
qed

lemma alist_by_keys:
  assumes "distinct (map fst al)"
  shows "map (\<lambda>k. (k, the (map_of al k))) (map fst al) = al"
proof -
  have "\<And>p. p \<in> set al \<Longrightarrow> (fst p, the (map_of al (fst p))) = p"
  proof -
    fix p assume "p \<in> set al"
    then have "(fst p, snd p) \<in> set al" by simp
    with assms have "map_of al (fst p) = Some (snd p)" by (rule map_of_is_SomeI)
    then show "(fst p, the (map_of al (fst p))) = p" by simp
  qed
  then have "map (\<lambda>p. (fst p, the (map_of al (fst p)))) al = map (\<lambda>p. p) al"
    by (intro map_cong) simp_all
  then show ?thesis by (simp add: comp_def)
qed

lemma last_filter_same: "xs \<noteq> [] \<Longrightarrow> P (last xs) \<Longrightarrow> last (filter P xs) = last xs"
  by (induction xs) (auto simp add: filter_empty_conv)

lemma tally_empty:
  "fold (\<lambda>x cv. cast_vote cv x) xs [] = vote_counts xs"
proof -
  let ?al = "fold (\<lambda>x cv. cast_vote cv x) xs []"
  have keys: "map fst ?al = first_seen xs" by (simp add: tally_keys)
  have "distinct (map fst ?al)" by (intro tally_distinct) simp
  then have "?al = map (\<lambda>k. (k, the (map_of ?al k))) (map fst ?al)"
    by (simp only: alist_by_keys)
  also have "\<dots> = map (\<lambda>k. (k, the (map_of ?al k))) (first_seen xs)" by (simp only: keys)
  also have "\<dots> = map (\<lambda>k. (k, count_list xs k)) (first_seen xs)"
    by (intro map_cong) (simp_all add: tally_map_of)
  finally show ?thesis by (simp add: vote_counts_def)
qed

lemma hd_sorted_reverse:
  assumes "z \<in> set xs" and "\<forall>y\<in>set xs. f y \<le> f z"
  shows "sorted_reverse f xs ! 0 = hd (filter (\<lambda>y. f y = f z) xs)"
proof -
  let ?ys = "sort_key f (rev xs)"
  have ne: "?ys \<noteq> []" using assms(1) by (metis length_0_conv length_rev length_sort empty_iff set_empty)
  have srt: "sorted (map f ?ys)" by simp
  have "last ?ys \<in> set ?ys" using ne by (rule last_in_set)
  then have "f (last ?ys) \<le> f z" using assms(2) by simp
  moreover have "f z \<le> f (last ?ys)"
  proof -
    have "z \<in> set ?ys" using assms(1) by simp
    then obtain i where i: "i < length ?ys" "?ys ! i = z" by (auto simp add: in_set_conv_nth simp del: length_sort set_sort)
    have "map f ?ys ! i \<le> map f ?ys ! (length ?ys - 1)"
      using srt i(1) by (intro sorted_nth_mono) (simp_all del: length_sort)
    then show ?thesis using i ne by (simp add: last_conv_nth del: length_sort)
  qed
  ultimately have "f (last ?ys) = f z" by simp
  then have "last (filter (\<lambda>y. f y = f z) ?ys) = last ?ys"
    using ne by (simp add: last_filter_same)
  moreover have "filter (\<lambda>y. f y = f z) ?ys = rev (filter (\<lambda>y. f y = f z) xs)"
    by (simp add: sort_key_stable rev_filter)
  moreover have "filter (\<lambda>y. f y = f z) xs \<noteq> []"
    using assms(1) by (auto simp add: filter_empty_conv)
  ultimately have "last ?ys = hd (filter (\<lambda>y. f y = f z) xs)"
    by (simp add: last_rev)
  moreover have "sorted_reverse f xs ! 0 = last ?ys"
    using ne by (simp add: sorted_reverse_def hd_rev hd_conv_nth [symmetric])
  ultimately show ?thesis by simp
qed

lemma find_removeAll: "\<not> P x \<Longrightarrow> List.find P (removeAll x ys) = List.find P ys"
  by (induction ys) auto

lemma find_first_seen: "List.find P (first_seen xs) = List.find P xs"
  by (induction xs) (auto simp add: find_removeAll)

lemma find_hd_filter: "filter P xs \<noteq> [] \<Longrightarrow> List.find P xs = Some (hd (filter P xs))"
  by (induction xs) auto

lemma votes_loop_counts:
  "votes_loop neighbours [0..<length neighbours] [] = Inr (vote_counts neighbours)"
  by (simp only: votes_loop_all tally_empty)

lemma find_map_fst: "List.find P (map f xs) = map_option f (List.find (\<lambda>x. P (f x)) xs)"
  by (induction xs) simp_all

lemma get_response_nonempty:
  assumes "items_contract items" and "neighbours \<noteq> []"
  shows "\<exists>w. get_response items neighbours = Inr w
           \<and> w \<in> set neighbours
           \<and> (\<forall>l'\<in>set neighbours. count_list neighbours l' \<le> count_list neighbours w)
           \<and> List.find (\<lambda>l. \<forall>l'\<in>set neighbours.
                  count_list neighbours l' \<le> count_list neighbours l)
                (map fst (items (vote_counts neighbours))) = Some w"
proof -
  let ?c = "count_list neighbours"
  let ?P = "\<lambda>l. \<forall>l'\<in>set neighbours. ?c l' \<le> ?c l"
  let ?it = "items (vote_counts neighbours)"
  have "mset ?it = mset (vote_counts neighbours)"
    using assms(1) by (simp add: items_contract_def)
  then have "set ?it = set (vote_counts neighbours)" by (rule mset_eq_setD)
  then have set_it: "set ?it = (\<lambda>k. (k, ?c k)) ` set neighbours"
    by (simp add: vote_counts_def)
  have "finite (?c ` set neighbours)" "?c ` set neighbours \<noteq> {}" using assms(2) by simp_all
  then have "Max (?c ` set neighbours) \<in> ?c ` set neighbours" by (rule Max_in)
  then obtain z where z: "z \<in> set neighbours" "?c z = Max (?c ` set neighbours)" by auto
  have zmax: "?P z" using z(2) by simp
  have Piff: "\<And>l. l \<in> set neighbours \<Longrightarrow> ?P l \<longleftrightarrow> ?c l = ?c z"
    using z(1) zmax by (auto intro: antisym)
  have zin: "(z, ?c z) \<in> set ?it" using z(1) set_it by simp
  have "\<forall>y\<in>set ?it. snd y \<le> snd (z, ?c z)" using zmax set_it by auto
  with zin have "sorted_reverse snd ?it ! 0 = hd (filter (\<lambda>y. snd y = snd (z, ?c z)) ?it)"
    by (rule hd_sorted_reverse)
  also have "filter (\<lambda>y. snd y = snd (z, ?c z)) ?it = filter (\<lambda>y. ?P (fst y)) ?it"
  proof (rule filter_cong)
    fix y assume "y \<in> set ?it"
    then obtain k where k: "k \<in> set neighbours" "y = (k, ?c k)" using set_it by auto
    then show "(snd y = snd (z, ?c z)) = ?P (fst y)" using Piff [of k] by simp
  qed simp
  finally have first: "sorted_reverse snd ?it ! 0 = hd (filter (\<lambda>y. ?P (fst y)) ?it)" .
  have "(z, ?c z) \<in> set (filter (\<lambda>y. ?P (fst y)) ?it)" using zin zmax by simp
  then have "0 < length (filter (\<lambda>y. ?P (fst y)) ?it)" by (rule length_pos_if_in_set)
  then have ne: "filter (\<lambda>y. ?P (fst y)) ?it \<noteq> []" by simp
  let ?h = "hd (filter (\<lambda>y. ?P (fst y)) ?it)"
  have "?h \<in> set (filter (\<lambda>y. ?P (fst y)) ?it)" using ne by (rule hd_in_set)
  then have h: "?h \<in> set ?it" "?P (fst ?h)" by simp_all
  from h(1) have hin: "fst ?h \<in> set neighbours" using set_it by auto
  have found: "List.find ?P (map fst ?it) = Some (fst ?h)"
    using ne by (simp add: find_map_fst find_hd_filter)
  have "?it \<noteq> []" using zin by auto
  then have "0 < length (sorted_reverse snd ?it)" by (simp add: sorted_reverse_def)
  then have "getitem (sorted_reverse snd ?it) 0 = Inr ?h"
    unfolding getitem_def using first by simp
  then have "get_response items neighbours = Inr (fst ?h)"
    unfolding get_response_def votes_loop_counts by simp
  with hin h(2) found show ?thesis by blast
qed

lemma insertion_order_contract: "items_contract insertion_order"
  by (simp add: items_contract_def insertion_order_def)

lemma hash_slot_order_contract: "items_contract hash_slot_order"
  by (simp add: items_contract_def hash_slot_order_def)

lemma get_response_insertion_order:
  assumes "neighbours \<noteq> []"
  shows "\<exists>w. get_response insertion_order neighbours = Inr w
           \<and> List.find (\<lambda>l. \<forall>l'\<in>set neighbours.
                  count_list neighbours l' \<le> count_list neighbours l) neighbours = Some w"
proof -
  let ?P = "\<lambda>l. \<forall>l'\<in>set neighbours. count_list neighbours l' \<le> count_list neighbours l"
  obtain w where w: "get_response insertion_order neighbours = Inr w"
    "List.find ?P (map fst (insertion_order (vote_counts neighbours))) = Some w"
    using get_response_nonempty [OF insertion_order_contract assms] by blast
  have "map fst (insertion_order (vote_counts neighbours)) = first_seen neighbours"
    by (simp add: insertion_order_def vote_counts_def comp_def)
  with w(2) have "List.find ?P neighbours = Some w" by (simp add: find_first_seen)
  with w(1) show ?thesis by blast
qed

lemma get_response_raises_iff:
  assumes "items_contract items"
  shows "(get_response items neighbours = Inl e) = (neighbours = [] \<and> e = IndexError)"
proof (cases "neighbours = []")
  case True
  have "mset (items ([] :: ('a \<times> nat) list)) = mset []"
    using assms unfolding items_contract_def by blast
  then have "items ([] :: ('a \<times> nat) list) = []" by simp
  then have "get_response items ([] :: 'a list) = Inl IndexError"
    by (simp add: get_response_def getitem_def sorted_reverse_def)
  then show ?thesis using True by auto
next
  case False
  with assms obtain w where "get_response items neighbours = Inr w"
    using get_response_nonempty [of items neighbours] by blast
  then show ?thesis using False by simp
qed

text \<open>
  Claim C6, as stated, fails in its second half on the Python 3.5 that the notebook
  declares: the labels 1 and 0 have one vote each, 1 is the first of the sequence, and
  \<open>get_response\<close> returns 0, the first in the order of the slots of the dictionary.
\<close>

theorem get_response_tie_order_counterexample:
  "count_list [1, 0 :: int] 1 = count_list [1, 0 :: int] 0
   \<and> hd [1, 0 :: int] = 1
   \<and> small_int_keys (vote_counts [1, 0])
   \<and> get_response hash_slot_order [1, 0] = Inr 0"
  by (simp add: get_response_def upt_rec getitem_def cast_vote_def sorted_reverse_def
      hash_slot_order_def small_int_keys_def vote_counts_def)

text \<open>
  Claim C6, amended. For a non-empty sequence of labels, and whatever the order in which
  the dictionary yields its entries, \<open>get_response\<close> returns a label of the sequence
  whose number of occurrences is the highest; among the labels with the highest number
  it returns the one that the dictionary yields first. When the dictionary keeps the
  order of insertion (Python 3.7 and later) this is the one that comes first in the
  sequence: the first element, scanning the input, that no label outnumbers. For
  \<open>[1, 1, 0]\<close> it returns 1 on every Python.
\<close>

theorem get_response_plurality:
  "(items_contract items \<and> neighbours \<noteq> [] \<longrightarrow>
      (\<exists>w. get_response items neighbours = Inr w
         \<and> w \<in> set neighbours
         \<and> (\<forall>l. count_list neighbours l \<le> count_list neighbours w)
         \<and> List.find (\<lambda>l. \<forall>l'\<in>set neighbours.
                count_list neighbours l' \<le> count_list neighbours l)
              (map fst (items (vote_counts neighbours))) = Some w))
   \<and> (neighbours \<noteq> [] \<longrightarrow>
      (\<exists>w. get_response insertion_order neighbours = Inr w
         \<and> List.find (\<lambda>l. \<forall>l'\<in>set neighbours.
                count_list neighbours l' \<le> count_list neighbours l) neighbours = Some w))
   \<and> (items_contract int_items \<longrightarrow> get_response int_items [1, 1, 0 :: int] = Inr 1)"
proof (intro conjI impI)
  assume "items_contract items \<and> neighbours \<noteq> []"
  then obtain w where w: "get_response items neighbours = Inr w" "w \<in> set neighbours"
    "\<forall>l'\<in>set neighbours. count_list neighbours l' \<le> count_list neighbours w"
    "List.find (\<lambda>l. \<forall>l'\<in>set neighbours.
        count_list neighbours l' \<le> count_list neighbours l)
      (map fst (items (vote_counts neighbours))) = Some w"
    using get_response_nonempty [of items neighbours] by auto
  have "\<forall>l. count_list neighbours l \<le> count_list neighbours w"
  proof
    fix l
    show "count_list neighbours l \<le> count_list neighbours w"
    proof (cases "l \<in> set neighbours")
      case True
      then show ?thesis using w(3) by simp
    next
      case False
      then show ?thesis by (simp add: count_list_0_iff)
    qed
  qed
  with w show "\<exists>w. get_response items neighbours = Inr w
         \<and> w \<in> set neighbours
         \<and> (\<forall>l. count_list neighbours l \<le> count_list neighbours w)
         \<and> List.find (\<lambda>l. \<forall>l'\<in>set neighbours.
                count_list neighbours l' \<le> count_list neighbours l)
              (map fst (items (vote_counts neighbours))) = Some w"
    by (intro exI [of _ w]) simp
next
  assume "neighbours \<noteq> []"
  then show "\<exists>w. get_response insertion_order neighbours = Inr w
         \<and> List.find (\<lambda>l. \<forall>l'\<in>set neighbours.
                count_list neighbours l' \<le> count_list neighbours l) neighbours = Some w"
    by (rule get_response_insertion_order)
next
  assume "items_contract int_items"
  then obtain w where w: "get_response int_items [1, 1, 0 :: int] = Inr w"
    "w \<in> set [1, 1, 0 :: int]"
    "\<forall>l'\<in>set [1, 1, 0 :: int]. count_list [1, 1, 0] l' \<le> count_list [1, 1, 0] w"
    using get_response_nonempty [of int_items "[1, 1, 0 :: int]"] by auto
  from w(2,3) have "w = 1" by auto
  with w(1) show "get_response int_items [1, 1, 0 :: int] = Inr 1" by simp
qed

theorem get_response_plurality_witness:
  "items_contract hash_slot_order \<and> [2, 1, 1, 2, 0 :: int] \<noteq> []
   \<and> get_response hash_slot_order [2, 1, 1, 2, 0] = Inr 1
   \<and> get_response insertion_order [2, 1, 1, 2, 0 :: int] = Inr 2
   \<and> get_response hash_slot_order [1, 1, 0] = Inr 1"
proof -
  have ne: "[2, 1, 1, 2, 0 :: int] \<noteq> []" by simp
  obtain w where w: "get_response hash_slot_order [2, 1, 1, 2, 0] = Inr w"
    "List.find (\<lambda>l. \<forall>l'\<in>set [2, 1, 1, 2, 0 :: int].
        count_list [2, 1, 1, 2, 0] l' \<le> count_list [2, 1, 1, 2, 0] l)
      (map fst (hash_slot_order (vote_counts [2, 1, 1, 2, 0]))) = Some w"
    using get_response_plurality [of hash_slot_order "[2, 1, 1, 2, 0]" hash_slot_order]
      hash_slot_order_contract ne by blast
  from w(2) have "w = 1" by (simp add: vote_counts_def hash_slot_order_def)
  with w(1) have slot: "get_response hash_slot_order [2, 1, 1, 2, 0] = Inr 1" by simp
  obtain w' where w': "get_response insertion_order [2, 1, 1, 2, 0 :: int] = Inr w'"
    "List.find (\<lambda>l. \<forall>l'\<in>set [2, 1, 1, 2, 0 :: int].
        count_list [2, 1, 1, 2, 0] l' \<le> count_list [2, 1, 1, 2, 0] l) [2, 1, 1, 2, 0] = Some w'"
    using get_response_plurality [of hash_slot_order "[2, 1, 1, 2, 0]" hash_slot_order] ne by blast
  from w'(2) have "w' = 2" by simp
  with w'(1) have ins: "get_response insertion_order [2, 1, 1, 2, 0 :: int] = Inr 2" by simp
  have "get_response hash_slot_order [1, 1, 0] = Inr 1"
    using get_response_plurality [of hash_slot_order "[2, 1, 1, 2, 0]" hash_slot_order]
      hash_slot_order_contract by blast
  with slot ins show ?thesis using hash_slot_order_contract by simp
qed

section \<open>Properties of get_neighbours and of the classification cell\<close>

lemma stable_argsort_contract: "argsort_contract stable_argsort"
  by (simp add: argsort_contract_def is_argsort_def stable_argsort_def)

lemma distances_loop_result:
  "distances_loop ar dat q is acc = Inr ds \<Longrightarrow> \<forall>i\<in>set is. i < length dat \<Longrightarrow>
   \<exists>new. ds = acc @ new \<and> map fst new = map (\<lambda>i. dat ! i) is
         \<and> (\<forall>p\<in>set new. euclidean_distance ar q (fst p) = Inr (snd p))"
proof (induction "is" arbitrary: acc)
  case Nil
  then show ?case by simp
next
  case (Cons i "is")
  from Cons.prems obtain d where d: "euclidean_distance ar q (dat ! i) = Inr d"
    and rest: "distances_loop ar dat q is (acc @ [(dat ! i, d)]) = Inr ds"
    by (auto simp add: getitem_def split: sum.splits)
  from Cons.IH [OF rest] Cons.prems(2)
  obtain new where new: "ds = (acc @ [(dat ! i, d)]) @ new" "map fst new = map (\<lambda>i. dat ! i) is"
    "\<forall>p\<in>set new. euclidean_distance ar q (fst p) = Inr (snd p)" by auto
  show ?case
    by (rule exI [of _ "(dat ! i, d) # new"]) (use new d in simp)
qed

lemma distances_loop_all:
  assumes "distances_loop ar dat q [0..<length dat] [] = Inr ds"
  shows "map fst ds = dat" and "\<forall>p\<in>set ds. euclidean_distance ar q (fst p) = Inr (snd p)"
proof -
  from distances_loop_result [OF assms]
  obtain new where new: "ds = [] @ new" "map fst new = map (\<lambda>i. dat ! i) [0..<length dat]"
    "\<forall>p\<in>set new. euclidean_distance ar q (fst p) = Inr (snd p)" by auto
  then show "map fst ds = dat" by (simp add: map_nth)
  from new show "\<forall>p\<in>set ds. euclidean_distance ar q (fst p) = Inr (snd p)" by simp
qed

lemma distances_loop_succeeds:
  "\<forall>i\<in>set is. i < length dat \<and> (\<exists>d. euclidean_distance ar q (dat ! i) = Inr d) \<Longrightarrow>
   \<exists>ds. distances_loop ar dat q is acc = Inr ds"
proof (induction "is" arbitrary: acc)
  case Nil
  then show ?case by simp
next
  case (Cons i "is")
  then obtain d where "euclidean_distance ar q (dat ! i) = Inr d" by auto
  then show ?case using Cons by (simp add: getitem_def)
qed

lemma distances_loop_raises:
  "\<exists>i\<in>set is. \<exists>e. euclidean_distance ar q (dat ! i) = Inl e \<Longrightarrow>
   \<exists>e. distances_loop ar dat q is acc = Inl e"
proof (induction "is" arbitrary: acc)
  case Nil
  then show ?case by simp
next
  case (Cons i "is")
  show ?case
  proof (cases "getitem dat i")
    case (Inl e)
    then show ?thesis by simp
  next
    case row: (Inr row)
    then have row_eq: "row = dat ! i" by (simp add: getitem_def split: if_splits)
    show ?thesis
    proof (cases "euclidean_distance ar q (dat ! i)")
      case (Inl e)
      then show ?thesis using row row_eq by simp
    next
      case (Inr d)
      with Cons.prems have "\<exists>i\<in>set is. \<exists>e. euclidean_distance ar q (dat ! i) = Inl e" by auto
      then have "\<exists>e. distances_loop ar dat q is (acc @ [(row, d)]) = Inl e" by (rule Cons.IH)
      then show ?thesis using row row_eq Inr by simp
    qed
  qed
qed

lemma slice_to_take:
  "slice_to a K = take (if 0 \<le> K then nat K else length a - nat (- K)) a"
  by (simp add: slice_to_def)

lemma get_neighbours_result:
  assumes "get_neighbours argsort ar dat labs q K = Inr nb"
  shows "\<exists>ds idx m. distances_loop ar dat q [0..<length dat] [] = Inr ds \<and> ds \<noteq> []
           \<and> idx = argsort (map snd ds)
           \<and> (\<forall>i\<in>set idx. i < length dat) \<and> (\<forall>i\<in>set idx. i < length labs)
           \<and> m = (if 0 \<le> K then nat K else length idx - nat (- K))
           \<and> data nb = map (\<lambda>i. dat ! i) (take m idx)
           \<and> labels nb = map (\<lambda>i. labs ! i) (take m idx)"
  using assms
  by (auto simp add: get_neighbours_def distance_column_def take_indices_def Let_def
        slice_to_take take_map split: sum.splits if_splits)

lemma get_neighbours_sorted_aux:
  assumes contract: "argsort_contract argsort"
    and result: "get_neighbours argsort ar dat labs q K = Inr nb"
  shows "\<exists>idx dists. distinct idx \<and> (\<forall>i\<in>set idx. i < length dat)
           \<and> data nb = map (\<lambda>i. dat ! i) idx \<and> labels nb = map (\<lambda>i. labs ! i) idx
           \<and> map (euclidean_distance ar q) (data nb) = map Inr dists \<and> sorted dists"
proof -
  from get_neighbours_result [OF result]
  obtain ds idx m where loop: "distances_loop ar dat q [0..<length dat] [] = Inr ds"
    and idx: "idx = argsort (map snd ds)"
    and nb: "data nb = map (\<lambda>i. dat ! i) (take m idx)" "labels nb = map (\<lambda>i. labs ! i) (take m idx)"
    by blast
  have fst_ds: "map fst ds = dat"
    and snd_ds: "\<forall>p\<in>set ds. euclidean_distance ar q (fst p) = Inr (snd p)"
    using distances_loop_all [OF loop] by simp_all
  have len: "length ds = length dat" using fst_ds by (metis length_map)
  have "is_argsort (map snd ds) idx"
    using contract idx by (simp add: argsort_contract_def)
  then have dist: "distinct idx" and bound: "\<forall>i\<in>set idx. i < length dat"
    and srt: "sorted (map (\<lambda>i. map snd ds ! i) idx)"
    using len by (simp_all add: is_argsort_def)
  let ?dists = "map (\<lambda>i. snd (ds ! i)) (take m idx)"
  have at: "\<And>i. i < length dat \<Longrightarrow> euclidean_distance ar q (dat ! i) = Inr (snd (ds ! i))"
  proof -
    fix i assume i: "i < length dat"
    then have "ds ! i \<in> set ds" using len by simp
    then have "euclidean_distance ar q (fst (ds ! i)) = Inr (snd (ds ! i))" using snd_ds by blast
    moreover have "fst (ds ! i) = dat ! i"
      using i len fst_ds by (metis nth_map)
    ultimately show "euclidean_distance ar q (dat ! i) = Inr (snd (ds ! i))" by simp
  qed
  have in_take: "\<And>i. i \<in> set (take m idx) \<Longrightarrow> i < length dat"
    using bound by (meson in_set_takeD)
  have "map (euclidean_distance ar q) (data nb) = map Inr ?dists"
    unfolding nb by (simp add: at in_take)
  moreover have "sorted ?dists"
  proof -
    have "map (\<lambda>i. map snd ds ! i) idx = map (\<lambda>i. snd (ds ! i)) idx"
      using bound len by (intro map_cong) simp_all
    with srt have "sorted (map (\<lambda>i. snd (ds ! i)) idx)" by (simp only:)
    then have "sorted (take m (map (\<lambda>i. snd (ds ! i)) idx))" by (rule sorted_wrt_take)
    then show ?thesis by (simp add: take_map)
  qed
  moreover have "distinct (take m idx)" using dist by simp
  ultimately show ?thesis using nb in_take by blast
qed

lemma get_neighbours_all:
  assumes contract: "argsort_contract argsort"
    and nonempty: "dat \<noteq> []"
    and labs: "length labs = length dat"
    and dists: "\<forall>row\<in>set dat. \<exists>d. euclidean_distance ar q row = Inr d"
    and K: "int (length dat) \<le> K"
  shows "\<exists>nb idx. get_neighbours argsort ar dat labs q K = Inr nb
           \<and> distinct idx \<and> set idx = {..<length dat}
           \<and> data nb = map (\<lambda>i. dat ! i) idx \<and> labels nb = map (\<lambda>i. labs ! i) idx
           \<and> length (data nb) = length dat \<and> length (labels nb) = length dat"
proof -
  have "\<exists>ds. distances_loop ar dat q [0..<length dat] [] = Inr ds"
    using dists by (intro distances_loop_succeeds) simp
  then obtain ds where loop: "distances_loop ar dat q [0..<length dat] [] = Inr ds" ..
  have "map fst ds = dat" using distances_loop_all [OF loop] by simp
  then have len: "length ds = length dat" by (metis length_map)
  then have ne: "ds \<noteq> []" using nonempty by auto
  let ?idx = "argsort (map snd ds)"
  have "is_argsort (map snd ds) ?idx"
    using contract by (simp add: argsort_contract_def)
  then have idx: "length ?idx = length dat" "distinct ?idx" "\<forall>i\<in>set ?idx. i < length dat"
    using len by (simp_all add: is_argsort_def)
  have "card (set ?idx) = length dat" using idx(1,2) by (simp add: distinct_card)
  moreover have "set ?idx \<subseteq> {..<length dat}" using idx(3) by auto
  ultimately have set_idx: "set ?idx = {..<length dat}"
    by (intro card_subset_eq) simp_all
  have "get_neighbours argsort ar dat labs q K
          = Inr \<lparr>data = map (\<lambda>i. dat ! i) ?idx, labels = map (\<lambda>i. labs ! i) ?idx\<rparr>"
    using loop ne idx labs K
    by (simp add: get_neighbours_def distance_column_def take_indices_def Let_def slice_to_def)
  moreover have "length (map (\<lambda>i. dat ! i) ?idx) = length dat"
    and "length (map (\<lambda>i. labs ! i) ?idx) = length dat"
    using idx(1) by simp_all
  ultimately show ?thesis using idx(2) set_idx
    by (intro exI [of _ "\<lparr>data = map (\<lambda>i. dat ! i) ?idx, labels = map (\<lambda>i. labs ! i) ?idx\<rparr>"]
          exI [of _ ?idx]) simp
qed

lemma get_neighbours_raises:
  assumes "\<exists>row\<in>set dat. \<exists>e. euclidean_distance ar q row = Inl e"
  shows "\<exists>e. get_neighbours argsort ar dat labs q K = Inl e"
proof -
  from assms obtain i e where "i < length dat" "euclidean_distance ar q (dat ! i) = Inl e"
    by (auto simp add: in_set_conv_nth)
  then have "\<exists>i\<in>set [0..<length dat]. \<exists>e. euclidean_distance ar q (dat ! i) = Inl e" by auto
  then have "\<exists>e. distances_loop ar dat q [0..<length dat] [] = Inl e"
    by (rule distances_loop_raises)
  then show ?thesis by (auto simp add: get_neighbours_def)
qed

lemma get_neighbours_empty: "get_neighbours argsort ar [] labs q K = Inl IndexError"
  by (simp add: get_neighbours_def distance_column_def)

lemma get_neighbours_labels_nonempty:
  assumes contract: "argsort_contract argsort"
    and K: "1 \<le> K"
    and result: "get_neighbours argsort ar dat labs q K = Inr nb"
  shows "labels nb \<noteq> []" and "data nb \<noteq> []"
proof -
  from get_neighbours_result [OF result]
  obtain ds idx m where all: "distances_loop ar dat q [0..<length dat] [] = Inr ds \<and> ds \<noteq> []
           \<and> idx = argsort (map snd ds)
           \<and> (\<forall>i\<in>set idx. i < length dat) \<and> (\<forall>i\<in>set idx. i < length labs)
           \<and> m = (if 0 \<le> K then nat K else length idx - nat (- K))
           \<and> data nb = map (\<lambda>i. dat ! i) (take m idx)
           \<and> labels nb = map (\<lambda>i. labs ! i) (take m idx)"
    by (elim exE)
  then have ne: "ds \<noteq> []"
    and idx: "idx = argsort (map snd ds)"
    and m: "m = (if 0 \<le> K then nat K else length idx - nat (- K))"
    and nb: "data nb = map (\<lambda>i. dat ! i) (take m idx)" "labels nb = map (\<lambda>i. labs ! i) (take m idx)"
    by simp_all
  have "is_argsort (map snd ds) idx"
    using contract idx by (simp add: argsort_contract_def)
  then have "length idx = length ds" by (simp add: is_argsort_def)
  then have "idx \<noteq> []" using ne by auto
  moreover have "0 < m" using m K by simp
  ultimately have "take m idx \<noteq> []" by simp
  then show "labels nb \<noteq> []" and "data nb \<noteq> []" using nb by simp_all
qed

lemma is_argsort_unique:
  assumes a: "is_argsort keys idx" and b: "is_argsort keys idx'" and d: "distinct keys"
  shows "idx = idx'"
proof -
  let ?n = "length keys"
  let ?f = "\<lambda>i. keys ! i"
  have full: "set js = {..<?n}" if "is_argsort keys js" for js
  proof -
    from that have "length js = ?n" "distinct js" "\<forall>i\<in>set js. i < ?n"
      by (simp_all add: is_argsort_def)
    then have "card (set js) = ?n" "set js \<subseteq> {..<?n}" by (auto simp add: distinct_card)
    then show ?thesis by (intro card_subset_eq) simp_all
  qed
  have inj: "inj_on ?f {..<?n}"
    using d by (auto simp add: inj_on_def nth_eq_iff_index_eq)
  have sets: "set idx = {..<?n}" "set idx' = {..<?n}" using a b by (simp_all add: full)
  have "distinct (map ?f idx)" "distinct (map ?f idx')"
    using a b inj sets by (simp_all add: distinct_map is_argsort_def)
  moreover have "sorted (map ?f idx)" "sorted (map ?f idx')"
    using a b by (simp_all add: is_argsort_def)
  moreover have "set (map ?f idx) = set (map ?f idx')" using sets by simp
  ultimately have "map ?f idx = map ?f idx'" by (intro sorted_distinct_set_unique)
  moreover have "inj_on ?f (set idx \<union> set idx')" using inj sets by simp
  ultimately show ?thesis by (simp add: inj_on_map_eq_map)
qed

lemma argsort_determined:
  assumes "argsort_contract argsort" and "is_argsort keys idx" and "distinct keys"
  shows "argsort keys = idx"
proof -
  have "is_argsort keys (argsort keys)" using assms(1) by (simp add: argsort_contract_def)
  then show ?thesis using assms(2,3) by (rule is_argsort_unique)
qed

lemma scenario_distances:
  "distances_loop numpy_int64 [[2, 2, 2], [4, 4, 4]] [5, 5, 5]
     [0..<length [[2, 2, 2], [4, 4, 4 :: 64 word]]] []
     = Inr [([2, 2, 2], sqrt 27), ([4, 4, 4], sqrt 3)]"
  by (simp add: upt_rec getitem_def euclidean_distance_def numpy_int64_def
      add_squared_difference_def int64_math_sqrt_def)

lemma scenario_neighbours:
  assumes "argsort_contract argsort"
  shows "get_neighbours argsort numpy_int64 [[2, 2, 2], [4, 4, 4]] [0, 1 :: int] [5, 5, 5] K
           = Inr \<lparr>data = slice_to [[4, 4, 4], [2, 2, 2]] K, labels = slice_to [1, 0] K\<rparr>"
proof -
  have "is_argsort [sqrt 27, sqrt 3] [1, 0]" by (simp add: is_argsort_def)
  with assms have "argsort [sqrt 27, sqrt 3] = [1, 0]"
    by (rule argsort_determined) simp
  then show ?thesis
    unfolding get_neighbours_def scenario_distances
    by (simp add: distance_column_def take_indices_def)
qed

lemma npy_aquicksort_pair: "npy_aquicksort [sqrt 27, sqrt 3] = [1, 0]"
  by (simp add: npy_aquicksort_def npy_get_msb.simps aquicksort_range.simps upt_rec
        shift_up.simps)

lemma scenario_neighbours_default_sort:
  "get_neighbours np_argsort numpy_int64 [[2, 2, 2], [4, 4, 4]] [0, 1 :: int] [5, 5, 5] K
     = Inr \<lparr>data = slice_to [[4, 4, 4], [2, 2, 2]] K, labels = slice_to [1, 0] K\<rparr>"
  unfolding get_neighbours_def scenario_distances
  by (simp add: distance_column_def np_argsort_def npy_aquicksort_pair take_indices_def)

lemma majority_distances:
  "distances_loop numpy_int64 [[8, 8, 8], [4, 4, 4], [7, 7, 7]] [5, 5, 5]
     [0..<length [[8, 8, 8], [4, 4, 4], [7, 7, 7 :: 64 word]]] []
     = Inr [([8, 8, 8], sqrt 27), ([4, 4, 4], sqrt 3), ([7, 7, 7], sqrt 12)]"
  by (simp add: upt_rec getitem_def euclidean_distance_def numpy_int64_def
      add_squared_difference_def int64_math_sqrt_def)

lemma majority_neighbours:
  assumes "argsort_contract argsort"
  shows "get_neighbours argsort numpy_int64 [[8, 8, 8], [4, 4, 4], [7, 7, 7]] [1, 0, 1 :: int]
           [5, 5, 5] 3
           = Inr \<lparr>data = [[4, 4, 4], [7, 7, 7], [8, 8, 8]], labels = [0, 1, 1]\<rparr>"
proof -
  have "is_argsort [sqrt 27, sqrt 3, sqrt 12] [1, 2, 0]" by (simp add: is_argsort_def)
  with assms have "argsort [sqrt 27, sqrt 3, sqrt 12] = [1, 2, 0]"
    by (rule argsort_determined) simp
  then show ?thesis
    unfolding get_neighbours_def majority_distances
    by (simp add: distance_column_def take_indices_def slice_to_def)
qed

lemma npy_aquicksort_triple: "npy_aquicksort [sqrt 27, sqrt 3, sqrt 12] = [1, 2, 0]"
  by (simp add: npy_aquicksort_def npy_get_msb.simps aquicksort_range.simps upt_rec
        shift_up.simps)

lemma majority_neighbours_default_sort:
  "get_neighbours np_argsort numpy_int64 [[8, 8, 8], [4, 4, 4], [7, 7, 7]] [1, 0, 1 :: int]
     [5, 5, 5] 3
     = Inr \<lparr>data = [[4, 4, 4], [7, 7, 7], [8, 8, 8]], labels = [0, 1, 1]\<rparr>"
  unfolding get_neighbours_def majority_distances
  by (simp add: distance_column_def np_argsort_def npy_aquicksort_triple take_indices_def
      slice_to_def)

lemma npy_aquicksort_eighteen_ties:
  "npy_aquicksort [1, 1, 1, 1, 1, 1, 1, 1, 1, 1, 1, 1, 1, 1, 1, 1, 1, 1]
     = [0, 15, 14, 13, 12, 11, 10, 9, 8, 7, 6, 5, 4, 3, 2, 1, 16, 17]"
  by code_simp

lemma eighteen_distances:
  "distances_loop numpy_int64
     [[1, 2, 2], [3, 2, 2], [1, 2, 2], [3, 2, 2], [1, 2, 2], [3, 2, 2], [1, 2, 2],
      [3, 2, 2], [1, 2, 2], [3, 2, 2], [1, 2, 2], [3, 2, 2], [1, 2, 2], [3, 2, 2],
      [1, 2, 2], [3, 2, 2], [1, 2, 2], [3, 2, 2]]
     [2, 2, 2]
     [0..<length
          [[1, 2, 2], [3, 2, 2], [1, 2, 2], [3, 2, 2], [1, 2, 2], [3, 2, 2], [1, 2, 2],
           [3, 2, 2], [1, 2, 2], [3, 2, 2], [1, 2, 2], [3, 2, 2], [1, 2, 2], [3, 2, 2],
           [1, 2, 2], [3, 2, 2], [1, 2, 2], [3, 2, 2 :: 64 word]]]
     []
   = Inr
     [([1, 2, 2], 1), ([3, 2, 2], 1), ([1, 2, 2], 1), ([3, 2, 2], 1), ([1, 2, 2], 1),
      ([3, 2, 2], 1), ([1, 2, 2], 1), ([3, 2, 2], 1), ([1, 2, 2], 1), ([3, 2, 2], 1),
      ([1, 2, 2], 1), ([3, 2, 2], 1), ([1, 2, 2], 1), ([3, 2, 2], 1), ([1, 2, 2], 1),
      ([3, 2, 2], 1), ([1, 2, 2], 1), ([3, 2, 2], 1)]"
  by (simp add: upt_rec getitem_def euclidean_distance_def numpy_int64_def
      add_squared_difference_def int64_math_sqrt_def)

lemma overflow_distances:
  "distances_loop numpy_int64 [[4000000000]] [0] [0..<length [[4000000000 :: 64 word]]] []
     = Inl ValueError"
  by (simp add: upt_rec getitem_def euclidean_distance_def numpy_int64_def
      add_squared_difference_def int64_math_sqrt_def)

lemma scenario_distance_far:
  "euclidean_distance numpy_int64 [5, 5, 5] [2, 2, 2] = Inr (sqrt 27)"
  by (simp add: euclidean_distance_def upt_rec getitem_def numpy_int64_def
      add_squared_difference_def int64_math_sqrt_def)

lemma scenario_distance_near:
  "euclidean_distance numpy_int64 [5, 5, 5] [4, 4, 4] = Inr (sqrt 3)"
  by (simp add: euclidean_distance_def upt_rec getitem_def numpy_int64_def
      add_squared_difference_def int64_math_sqrt_def)

lemma get_response_single:
  assumes "items_contract items"
  shows "get_response items [l] = Inr l"
proof -
  obtain w where "get_response items [l] = Inr w" "w \<in> set [l]"
    using get_response_nonempty [of items "[l]"] assms by auto
  then show ?thesis by simp
qed

lemma get_response_two_to_one:
  assumes "items_contract items"
  shows "get_response items [0, 1, 1 :: int] = Inr 1"
proof -
  obtain w where w: "get_response items [0, 1, 1 :: int] = Inr w" "w \<in> set [0, 1, 1 :: int]"
    "\<forall>l'\<in>set [0, 1, 1 :: int]. count_list [0, 1, 1] l' \<le> count_list [0, 1, 1] w"
    using get_response_nonempty [of items "[0, 1, 1 :: int]"] assms by auto
  from w(2,3) have "w = 1" by auto
  with w(1) show ?thesis by simp
qed

text \<open>
  Claim C4, as stated, fails in its second half. Eighteen reference points, all at
  distance 1 from the query \<open>[2, 2, 2]\<close> and labelled with their index: the default sort
  of \<^verbatim>\<open>np.argsort\<close> splits an array of more than sixteen elements around a pivot,
  and the three nearest neighbours come out with the original indices 0, 15 and 14, so
  the point of index 15 stands before the points of the indices 1 to 14. The indices
  that the sort returns do sort the distances: \<^verbatim>\<open>np.argsort\<close> keeps its contract.
\<close>

theorem get_neighbours_tie_order_counterexample:
  "euclidean_distance numpy_int64 [2, 2, 2] [1, 2, 2] = Inr 1
   \<and> euclidean_distance numpy_int64 [2, 2, 2] [3, 2, 2] = Inr 1
   \<and> is_argsort [1, 1, 1, 1, 1, 1, 1, 1, 1, 1, 1, 1, 1, 1, 1, 1, 1, 1]
        (np_argsort [1, 1, 1, 1, 1, 1, 1, 1, 1, 1, 1, 1, 1, 1, 1, 1, 1, 1])
   \<and> get_neighbours np_argsort numpy_int64
        [[1, 2, 2], [3, 2, 2], [1, 2, 2], [3, 2, 2], [1, 2, 2], [3, 2, 2], [1, 2, 2],
         [3, 2, 2], [1, 2, 2], [3, 2, 2], [1, 2, 2], [3, 2, 2], [1, 2, 2], [3, 2, 2],
         [1, 2, 2], [3, 2, 2], [1, 2, 2], [3, 2, 2]]
        [0, 1, 2, 3, 4, 5, 6, 7, 8, 9, 10, 11, 12, 13, 14, 15, 16, 17 :: int] [2, 2, 2] 3
      = Inr \<lparr>data = [[1, 2, 2], [3, 2, 2], [1, 2, 2]], labels = [0, 15, 14]\<rparr>"
proof (intro conjI)
  show "euclidean_distance numpy_int64 [2, 2, 2] [1, 2, 2] = Inr 1"
    and "euclidean_distance numpy_int64 [2, 2, 2] [3, 2, 2] = Inr 1"
    by (simp_all add: euclidean_distance_def upt_rec getitem_def numpy_int64_def
        add_squared_difference_def int64_math_sqrt_def)
next
  show "is_argsort [1, 1, 1, 1, 1, 1, 1, 1, 1, 1, 1, 1, 1, 1, 1, 1, 1, 1]
        (np_argsort [1, 1, 1, 1, 1, 1, 1, 1, 1, 1, 1, 1, 1, 1, 1, 1, 1, 1])"
    by (simp add: np_argsort_def npy_aquicksort_eighteen_ties is_argsort_def)
next
  show "get_neighbours np_argsort numpy_int64
        [[1, 2, 2], [3, 2, 2], [1, 2, 2], [3, 2, 2], [1, 2, 2], [3, 2, 2], [1, 2, 2],
         [3, 2, 2], [1, 2, 2], [3, 2, 2], [1, 2, 2], [3, 2, 2], [1, 2, 2], [3, 2, 2],
         [1, 2, 2], [3, 2, 2], [1, 2, 2], [3, 2, 2]]
        [0, 1, 2, 3, 4, 5, 6, 7, 8, 9, 10, 11, 12, 13, 14, 15, 16, 17 :: int] [2, 2, 2] 3
      = Inr \<lparr>data = [[1, 2, 2], [3, 2, 2], [1, 2, 2]], labels = [0, 15, 14]\<rparr>"
    unfolding get_neighbours_def eighteen_distances
    by (simp add: distance_column_def np_argsort_def npy_aquicksort_eighteen_ties
          take_indices_def slice_to_def)
qed

text \<open>
  Claim C4, amended. Whatever \<^verbatim>\<open>np.argsort\<close> does with equal distances, as long as it
  returns indices that sort the distances, and whatever the arithmetic of the
  components: the neighbours that \<open>get_neighbours\<close> returns are reference points at
  distinct indices, each with its own label, and their distances to the query are in
  ascending order.
\<close>

theorem get_neighbours_sorted_by_distance:
  assumes "argsort_contract argsort"
    and "get_neighbours argsort ar dat labs test_instance K = Inr nb"
  shows "\<exists>idx dists. distinct idx \<and> (\<forall>i\<in>set idx. i < length dat)
           \<and> data nb = map (\<lambda>i. dat ! i) idx \<and> labels nb = map (\<lambda>i. labs ! i) idx
           \<and> map (euclidean_distance ar test_instance) (data nb) = map Inr dists \<and> sorted dists"
  using assms by (rule get_neighbours_sorted_aux)

theorem get_neighbours_sorted_by_distance_witness:
  "argsort_contract stable_argsort
   \<and> get_neighbours stable_argsort numpy_int64 [[2, 2, 2], [4, 4, 4]] [0, 1 :: int] [5, 5, 5] 2
       = Inr \<lparr>data = [[4, 4, 4], [2, 2, 2]], labels = [1, 0]\<rparr>
   \<and> get_neighbours np_argsort numpy_int64 [[2, 2, 2], [4, 4, 4]] [0, 1 :: int] [5, 5, 5] 2
       = Inr \<lparr>data = [[4, 4, 4], [2, 2, 2]], labels = [1, 0]\<rparr>
   \<and> (\<exists>dists. map (euclidean_distance numpy_int64 [5, 5, 5]) [[4, 4, 4], [2, 2, 2]]
                  = map Inr dists
          \<and> sorted dists)"
proof -
  have np_run: "get_neighbours np_argsort numpy_int64 [[2, 2, 2], [4, 4, 4]] [0, 1 :: int]
                  [5, 5, 5] 2
               = Inr \<lparr>data = [[4, 4, 4], [2, 2, 2]], labels = [1, 0]\<rparr>"
    by (simp add: scenario_neighbours_default_sort slice_to_def)
  have run: "get_neighbours stable_argsort numpy_int64 [[2, 2, 2], [4, 4, 4]] [0, 1 :: int]
               [5, 5, 5] 2
               = Inr \<lparr>data = [[4, 4, 4], [2, 2, 2]], labels = [1, 0]\<rparr>"
    by (simp add: scenario_neighbours [OF stable_argsort_contract] slice_to_def)
  from get_neighbours_sorted_by_distance [OF stable_argsort_contract run]
  have "\<exists>dists. map (euclidean_distance numpy_int64 [5, 5, 5]) [[4, 4, 4], [2, 2, 2]]
                  = map Inr dists
          \<and> sorted dists"
    by auto
  then show ?thesis using run np_run stable_argsort_contract by blast
qed

text \<open>
  Claim C5, as stated, fails. On the empty reference set the list of distances is empty,
  \<^verbatim>\<open>np.array([])\<close> has one dimension only, and the column index raises IndexError. And
  a reference point of the dimension of the query for which \<open>euclidean_distance\<close> raises
  makes \<open>get_neighbours\<close> raise: with 64-bit integers, the point \<open>[4000000000]\<close> and the
  query \<open>[0]\<close>.
\<close>

theorem get_neighbours_empty_reference_counterexample:
  "int (length ([] :: 64 word list list)) \<le> 1
   \<and> get_neighbours np_argsort numpy_int64 [] ([] :: int list) [5, 5, 5] 1 = Inl IndexError
   \<and> length [4000000000 :: 64 word] = length [0 :: 64 word]
   \<and> int (length [[4000000000 :: 64 word]]) \<le> 1
   \<and> get_neighbours np_argsort numpy_int64 [[4000000000]] [0 :: int] [0] 1 = Inl ValueError"
proof -
  have "get_neighbours np_argsort numpy_int64 [[4000000000]] [0 :: int] [0] 1 = Inl ValueError"
    unfolding get_neighbours_def overflow_distances by simp
  then show ?thesis by (simp add: get_neighbours_empty)
qed

text \<open>
  Claim C5, amended. For a reference set that is not empty, with one label per point and
  such that the distance from the query to every point is computed without an error,
  and for \<open>K\<close> at least the size of the reference set, \<open>get_neighbours\<close> returns without
  an error, and what it returns is the whole reference set in the order of
  \<^verbatim>\<open>np.argsort\<close>: as many points and labels as the reference set has, not \<open>K\<close>. When
  the distance to some point raises, \<open>get_neighbours\<close> raises. With 64-bit integers the
  distance to a point is computed without an error when the point has the components
  of the query and the sum of the squares is below \<open>2 ^ 63\<close>. On the empty reference set
  \<open>get_neighbours\<close> raises IndexError.
\<close>

theorem get_neighbours_whole_reference:
  "(argsort_contract argsort \<and> dat \<noteq> [] \<and> length labs = length dat
      \<and> (\<forall>row\<in>set dat. \<exists>d. euclidean_distance ar test_instance row = Inr d)
      \<and> int (length dat) \<le> K \<longrightarrow>
      (\<exists>nb idx. get_neighbours argsort ar dat labs test_instance K = Inr nb
         \<and> distinct idx \<and> set idx = {..<length dat}
         \<and> data nb = map (\<lambda>i. dat ! i) idx \<and> labels nb = map (\<lambda>i. labs ! i) idx
         \<and> length (data nb) = length dat \<and> length (labels nb) = length dat))
   \<and> ((\<exists>row\<in>set dat. \<exists>e. euclidean_distance ar test_instance row = Inl e) \<longrightarrow>
        (\<exists>e. get_neighbours argsort ar dat labs test_instance K = Inl e))
   \<and> (length v \<le> length w \<and> (\<Sum>i<length v. (sint (v ! i) - sint (w ! i))\<^sup>2) < 2 ^ 63 \<longrightarrow>
        (\<exists>d. euclidean_distance numpy_int64 v w = Inr d))
   \<and> get_neighbours argsort ar [] labs test_instance K = Inl IndexError"
proof (intro conjI impI)
  assume "argsort_contract argsort \<and> dat \<noteq> [] \<and> length labs = length dat
      \<and> (\<forall>row\<in>set dat. \<exists>d. euclidean_distance ar test_instance row = Inr d)
      \<and> int (length dat) \<le> K"
  then show "\<exists>nb idx. get_neighbours argsort ar dat labs test_instance K = Inr nb
         \<and> distinct idx \<and> set idx = {..<length dat}
         \<and> data nb = map (\<lambda>i. dat ! i) idx \<and> labels nb = map (\<lambda>i. labs ! i) idx
         \<and> length (data nb) = length dat \<and> length (labels nb) = length dat"
    using get_neighbours_all [of argsort dat labs ar test_instance K] by simp
next
  assume "\<exists>row\<in>set dat. \<exists>e. euclidean_distance ar test_instance row = Inl e"
  then show "\<exists>e. get_neighbours argsort ar dat labs test_instance K = Inl e"
    by (rule get_neighbours_raises)
next
  assume h: "length v \<le> length w \<and> (\<Sum>i<length v. (sint (v ! i) - sint (w ! i))\<^sup>2) < 2 ^ 63"
  from h have "length v \<le> length w" by (rule conjunct1)
  moreover from h have "(\<Sum>i<length v. (sint (v ! i) - sint (w ! i))\<^sup>2) < 2 ^ 63"
    by (rule conjunct2)
  ultimately have "euclidean_distance numpy_int64 v w
        = Inr (sqrt (real_of_int (\<Sum>i<length v. (sint (v ! i) - sint (w ! i))\<^sup>2)))"
    by (rule int64_distance_value)
  then show "\<exists>d. euclidean_distance numpy_int64 v w = Inr d" by (rule exI)
next
  show "get_neighbours argsort ar [] labs test_instance K = Inl IndexError"
    by (rule get_neighbours_empty)
qed

theorem get_neighbours_whole_reference_witness:
  "argsort_contract stable_argsort
   \<and> int (length [[2, 2, 2], [4, 4, 4 :: 64 word]]) \<le> 5
   \<and> euclidean_distance numpy_int64 [5, 5, 5] [2, 2, 2] = Inr (sqrt 27)
   \<and> euclidean_distance numpy_int64 [5, 5, 5] [4, 4, 4] = Inr (sqrt 3)
   \<and> get_neighbours stable_argsort numpy_int64 [[2, 2, 2], [4, 4, 4]] [0, 1 :: int] [5, 5, 5] 5
       = Inr \<lparr>data = [[4, 4, 4], [2, 2, 2]], labels = [1, 0]\<rparr>
   \<and> get_neighbours np_argsort numpy_int64 [[2, 2, 2], [4, 4, 4]] [0, 1 :: int] [5, 5, 5] 5
       = Inr \<lparr>data = [[4, 4, 4], [2, 2, 2]], labels = [1, 0]\<rparr>
   \<and> (\<exists>nb. get_neighbours stable_argsort numpy_int64 [[2, 2, 2], [4, 4, 4]] [0, 1 :: int]
              [5, 5, 5] 5 = Inr nb
          \<and> length (data nb) = 2 \<and> length (labels nb) = 2)
   \<and> euclidean_distance numpy_int64 [0] [4000000000] = Inl ValueError
   \<and> (\<exists>e. get_neighbours stable_argsort numpy_int64 [[1], [4000000000]] [0, 1 :: int] [0] 5
             = Inl e)
   \<and> (\<Sum>i<length [5, 5, 5 :: 64 word].
         (sint ([5, 5, 5 :: 64 word] ! i) - sint ([2, 2, 2 :: 64 word] ! i))\<^sup>2) = 27
   \<and> (\<exists>d. euclidean_distance numpy_int64 [5, 5, 5] [2, 2, 2] = Inr d)"
proof -
  have sum: "(\<Sum>i<length [5, 5, 5 :: 64 word].
         (sint ([5, 5, 5 :: 64 word] ! i) - sint ([2, 2, 2 :: 64 word] ! i))\<^sup>2) = 27"
    by (simp add: lessThan_Suc numeral_3_eq_3)
  have returns: "\<exists>d. euclidean_distance numpy_int64 [5, 5, 5] [2, 2, 2] = Inr d"
    using get_neighbours_whole_reference
            [of stable_argsort "[]" "[] :: int list" numpy_int64 "[]" 0 "[5, 5, 5]" "[2, 2, 2]"]
    by (simp only: sum) simp
  have np_run: "get_neighbours np_argsort numpy_int64 [[2, 2, 2], [4, 4, 4]] [0, 1 :: int]
                  [5, 5, 5] 5
               = Inr \<lparr>data = [[4, 4, 4], [2, 2, 2]], labels = [1, 0]\<rparr>"
    by (simp add: scenario_neighbours_default_sort slice_to_def)
  have run: "get_neighbours stable_argsort numpy_int64 [[2, 2, 2], [4, 4, 4]] [0, 1 :: int]
               [5, 5, 5] 5
               = Inr \<lparr>data = [[4, 4, 4], [2, 2, 2]], labels = [1, 0]\<rparr>"
    by (simp add: scenario_neighbours [OF stable_argsort_contract] slice_to_def)
  have whole: "\<exists>nb. get_neighbours stable_argsort numpy_int64 [[2, 2, 2], [4, 4, 4]] [0, 1 :: int]
              [5, 5, 5] 5 = Inr nb
          \<and> length (data nb) = 2 \<and> length (labels nb) = 2"
    using stable_argsort_contract scenario_distance_far scenario_distance_near
      get_neighbours_whole_reference
            [of stable_argsort "[[2, 2, 2], [4, 4, 4]]" "[0, 1 :: int]" numpy_int64 "[5, 5, 5]" 5
               "[]" "[]"]
    by auto
  have raise: "euclidean_distance numpy_int64 [0] [4000000000] = Inl ValueError"
    by (simp add: euclidean_distance_def upt_rec getitem_def numpy_int64_def
        add_squared_difference_def int64_math_sqrt_def)
  have "\<exists>e. get_neighbours stable_argsort numpy_int64 [[1], [4000000000]] [0, 1 :: int] [0] 5
             = Inl e"
    using raise
      get_neighbours_whole_reference
            [of stable_argsort "[[1], [4000000000]]" "[0, 1 :: int]" numpy_int64 "[0]" 5
               "[]" "[]"]
    by auto
  then show ?thesis
    using run np_run whole raise sum returns stable_argsort_contract scenario_distance_far
      scenario_distance_near
    by simp
qed

text \<open>
  Claim C9. The classification cell returns what \<open>get_response\<close> returns on the labels
  of the neighbours that \<open>get_neighbours\<close> found (and the error of \<open>get_neighbours\<close> when
  it raises), so the label it returns is a label of these neighbours that no other label
  outnumbers among them. For the reference points \<open>[2, 2, 2]\<close> with label 0 and
  \<open>[4, 4, 4]\<close> with label 1, the query \<open>[5, 5, 5]\<close> and \<open>K = 1\<close>, the nearest neighbour is
  \<open>[4, 4, 4]\<close> and the predicted label is 1. For the reference points \<open>[8, 8, 8]\<close>,
  \<open>[4, 4, 4]\<close> and \<open>[7, 7, 7]\<close> with the labels 1, 0 and 1, the same query and \<open>K = 3\<close>,
  the neighbours come out as \<open>[4, 4, 4]\<close>, \<open>[7, 7, 7]\<close>, \<open>[8, 8, 8]\<close> with the labels
  0, 1, 1, and the predicted label is 1, that of the majority and not that of the nearest
  neighbour. All of this holds whatever sorting permutation \<^verbatim>\<open>np.argsort\<close> returns and
  whatever the order of the entries of the dictionary.
\<close>

theorem classify_votes_among_neighbours:
  "classify argsort items ar training_set training_labels test_instance K
     = (case get_neighbours argsort ar training_set training_labels test_instance K of
          Inl e \<Rightarrow> Inl e
        | Inr nb \<Rightarrow> get_response items (labels nb))
   \<and> (items_contract items
        \<and> classify argsort items ar training_set training_labels test_instance K = Inr l \<longrightarrow>
        (\<exists>nb. get_neighbours argsort ar training_set training_labels test_instance K = Inr nb
           \<and> l \<in> set (labels nb)
           \<and> (\<forall>l'. count_list (labels nb) l' \<le> count_list (labels nb) l)))
   \<and> (argsort_contract sorting \<and> items_contract int_items \<longrightarrow>
        get_neighbours sorting numpy_int64 [[2, 2, 2], [4, 4, 4]] [0, 1 :: int] [5, 5, 5] 1
          = Inr \<lparr>data = [[4, 4, 4]], labels = [1]\<rparr>
        \<and> classify sorting int_items numpy_int64 [[2, 2, 2], [4, 4, 4]] [0, 1 :: int] [5, 5, 5] 1
            = Inr 1
        \<and> get_neighbours sorting numpy_int64 [[8, 8, 8], [4, 4, 4], [7, 7, 7]] [1, 0, 1 :: int]
            [5, 5, 5] 3
          = Inr \<lparr>data = [[4, 4, 4], [7, 7, 7], [8, 8, 8]], labels = [0, 1, 1]\<rparr>
        \<and> classify sorting int_items numpy_int64 [[8, 8, 8], [4, 4, 4], [7, 7, 7]]
            [1, 0, 1 :: int] [5, 5, 5] 3
            = Inr 1)"
proof (intro conjI impI)
  show "classify argsort items ar training_set training_labels test_instance K
     = (case get_neighbours argsort ar training_set training_labels test_instance K of
          Inl e \<Rightarrow> Inl e
        | Inr nb \<Rightarrow> get_response items (labels nb))"
    by (simp add: classify_def)
next
  assume h: "items_contract items
        \<and> classify argsort items ar training_set training_labels test_instance K = Inr l"
  then have contract: "items_contract items" by (rule conjunct1)
  from h obtain nb
    where nb: "get_neighbours argsort ar training_set training_labels test_instance K = Inr nb"
      and vote: "get_response items (labels nb) = Inr l"
    by (cases "get_neighbours argsort ar training_set training_labels test_instance K")
      (simp_all add: classify_def)
  have ne: "labels nb \<noteq> []"
  proof
    assume "labels nb = []"
    then have "get_response items (labels nb) = Inl IndexError"
      using get_response_raises_iff [OF contract, of "labels nb" IndexError] by simp
    with vote show False by simp
  qed
  from get_response_nonempty [OF contract ne] vote
  have top: "l \<in> set (labels nb)"
    "\<forall>l'\<in>set (labels nb). count_list (labels nb) l' \<le> count_list (labels nb) l"
    by auto
  have "\<forall>l'. count_list (labels nb) l' \<le> count_list (labels nb) l"
  proof
    fix l'
    show "count_list (labels nb) l' \<le> count_list (labels nb) l"
    proof (cases "l' \<in> set (labels nb)")
      case True
      then show ?thesis using top(2) by simp
    next
      case False
      then show ?thesis by (simp add: count_list_0_iff)
    qed
  qed
  with nb top(1)
  show "\<exists>nb. get_neighbours argsort ar training_set training_labels test_instance K = Inr nb
           \<and> l \<in> set (labels nb)
           \<and> (\<forall>l'. count_list (labels nb) l' \<le> count_list (labels nb) l)"
    by (intro exI [of _ nb]) simp
next
  assume h: "argsort_contract sorting \<and> items_contract int_items"
  then have sorting: "argsort_contract sorting" and order: "items_contract int_items"
    by simp_all
  show nb: "get_neighbours sorting numpy_int64 [[2, 2, 2], [4, 4, 4]] [0, 1 :: int] [5, 5, 5] 1
          = Inr \<lparr>data = [[4, 4, 4]], labels = [1]\<rparr>"
    using sorting by (simp add: scenario_neighbours slice_to_def)
  show "classify sorting int_items numpy_int64 [[2, 2, 2], [4, 4, 4]] [0, 1 :: int] [5, 5, 5] 1
            = Inr 1"
    by (simp add: classify_def nb get_response_single [OF order])
  show nb3: "get_neighbours sorting numpy_int64 [[8, 8, 8], [4, 4, 4], [7, 7, 7]]
            [1, 0, 1 :: int] [5, 5, 5] 3
          = Inr \<lparr>data = [[4, 4, 4], [7, 7, 7], [8, 8, 8]], labels = [0, 1, 1]\<rparr>"
    using sorting by (rule majority_neighbours)
  show "classify sorting int_items numpy_int64 [[8, 8, 8], [4, 4, 4], [7, 7, 7]]
            [1, 0, 1 :: int] [5, 5, 5] 3
            = Inr 1"
    by (simp add: classify_def nb3 get_response_two_to_one [OF order])
qed

theorem classify_votes_among_neighbours_witness:
  "argsort_contract stable_argsort
   \<and> items_contract (insertion_order :: (int \<times> nat) list \<Rightarrow> (int \<times> nat) list)
   \<and> classify stable_argsort insertion_order numpy_int64 [[2, 2, 2], [4, 4, 4]] [0, 1 :: int]
       [5, 5, 5] 1 = Inr 1
   \<and> classify stable_argsort insertion_order numpy_int64 [[8, 8, 8], [4, 4, 4], [7, 7, 7]]
       [1, 0, 1 :: int] [5, 5, 5] 3 = Inr 1
   \<and> (\<exists>nb. get_neighbours stable_argsort numpy_int64 [[8, 8, 8], [4, 4, 4], [7, 7, 7]]
              [1, 0, 1 :: int] [5, 5, 5] 3 = Inr nb
          \<and> 1 \<in> set (labels nb)
          \<and> (\<forall>l'. count_list (labels nb) l' \<le> count_list (labels nb) 1))
   \<and> classify np_argsort hash_slot_order numpy_int64 [[2, 2, 2], [4, 4, 4]] [0, 1] [5, 5, 5] 1
       = Inr 1
   \<and> classify np_argsort hash_slot_order numpy_int64 [[8, 8, 8], [4, 4, 4], [7, 7, 7]]
       [1, 0, 1] [5, 5, 5] 3 = Inr 1"
proof -
  have order: "items_contract (insertion_order :: (int \<times> nat) list \<Rightarrow> (int \<times> nat) list)"
    by (rule insertion_order_contract)
  have runs: "classify stable_argsort insertion_order numpy_int64 [[2, 2, 2], [4, 4, 4]]
       [0, 1 :: int] [5, 5, 5] 1 = Inr 1"
    "classify stable_argsort insertion_order numpy_int64 [[8, 8, 8], [4, 4, 4], [7, 7, 7]]
       [1, 0, 1 :: int] [5, 5, 5] 3 = Inr 1"
    using stable_argsort_contract order
      classify_votes_among_neighbours
            [of stable_argsort insertion_order numpy_int64 "[]" "[] :: int list" "[]" 0 0
               stable_argsort insertion_order]
    by simp_all
  have among: "\<exists>nb. get_neighbours stable_argsort numpy_int64 [[8, 8, 8], [4, 4, 4], [7, 7, 7]]
              [1, 0, 1 :: int] [5, 5, 5] 3 = Inr nb
          \<and> 1 \<in> set (labels nb)
          \<and> (\<forall>l'. count_list (labels nb) l' \<le> count_list (labels nb) 1)"
    using order runs(2)
      classify_votes_among_neighbours
            [of stable_argsort insertion_order numpy_int64 "[[8, 8, 8], [4, 4, 4], [7, 7, 7]]"
               "[1, 0, 1 :: int]" "[5, 5, 5]" 3 1 stable_argsort insertion_order]
    by simp
  have "classify np_argsort hash_slot_order numpy_int64 [[2, 2, 2], [4, 4, 4]] [0, 1] [5, 5, 5] 1
       = Inr 1"
    by (simp add: classify_def scenario_neighbours_default_sort slice_to_def
        get_response_single [OF hash_slot_order_contract])
  moreover have "classify np_argsort hash_slot_order numpy_int64
       [[8, 8, 8], [4, 4, 4], [7, 7, 7]] [1, 0, 1] [5, 5, 5] 3 = Inr 1"
    by (simp add: classify_def majority_neighbours_default_sort
        get_response_two_to_one [OF hash_slot_order_contract])
  ultimately show ?thesis
    using runs among stable_argsort_contract order by simp
qed

text \<open>
  Claim C7, as stated, fails in its example: classifying against an empty reference set
  with \<open>K = 1\<close> does not end in \<open>get_response\<close> on an empty sequence of labels. It is
  \<open>get_neighbours\<close> that raises, an IndexError, and \<open>get_response\<close> is not called.
\<close>

theorem classify_empty_reference_counterexample:
  "(1 :: int) \<le> 1
   \<and> get_neighbours np_argsort numpy_int64 [] ([] :: int list) [5, 5, 5] 1 = Inl IndexError
   \<and> classify np_argsort insertion_order numpy_int64 [] ([] :: int list) [5, 5, 5] 1
       = Inl IndexError"
  by (simp add: classify_def get_neighbours_empty)

text \<open>
  Claim C7, amended. \<open>get_response\<close> raises exactly when its sequence of labels is empty,
  and what it raises is the IndexError of \<^verbatim>\<open>sorted_votes[0]\<close>; nothing catches it, so
  that the classification cell ends with it when \<open>get_neighbours\<close> has returned no label.
  This does not happen with \<open>K\<close> of 1 or more: the labels that \<open>get_neighbours\<close> returns
  then are not empty. With an empty reference set the classification cell ends with the
  IndexError of \<open>get_neighbours\<close>.
\<close>

theorem get_response_error_iff:
  "(items_contract items \<longrightarrow>
      (get_response items neighbours = Inl e) = (neighbours = [] \<and> e = IndexError))
   \<and> (argsort_contract argsort \<and> 1 \<le> K
        \<and> get_neighbours argsort ar training_set training_labels test_instance K = Inr nb \<longrightarrow>
      labels nb \<noteq> [])
   \<and> (items_contract label_items
        \<and> get_neighbours argsort ar training_set training_labels test_instance K = Inr nb
        \<and> labels nb = [] \<longrightarrow>
      classify argsort label_items ar training_set training_labels test_instance K
        = Inl IndexError)
   \<and> classify argsort label_items ar [] training_labels test_instance K = Inl IndexError"
proof (intro conjI impI)
  assume "items_contract items"
  then show "(get_response items neighbours = Inl e) = (neighbours = [] \<and> e = IndexError)"
    by (rule get_response_raises_iff)
next
  assume h: "argsort_contract argsort \<and> 1 \<le> K
        \<and> get_neighbours argsort ar training_set training_labels test_instance K = Inr nb"
  then have "argsort_contract argsort" and "1 \<le> K"
    and "get_neighbours argsort ar training_set training_labels test_instance K = Inr nb"
    by simp_all
  then show "labels nb \<noteq> []" by (rule get_neighbours_labels_nonempty)
next
  assume h: "items_contract label_items
        \<and> get_neighbours argsort ar training_set training_labels test_instance K = Inr nb
        \<and> labels nb = []"
  then have "items_contract label_items" by (rule conjunct1)
  then have "get_response label_items (labels nb) = Inl IndexError"
    using h get_response_raises_iff [of label_items "labels nb" IndexError] by simp
  then show "classify argsort label_items ar training_set training_labels test_instance K
        = Inl IndexError"
    using h by (simp add: classify_def)
next
  show "classify argsort label_items ar [] training_labels test_instance K = Inl IndexError"
    by (simp add: classify_def get_neighbours_empty)
qed

theorem get_response_error_iff_witness:
  "items_contract (insertion_order :: (int \<times> nat) list \<Rightarrow> (int \<times> nat) list)
   \<and> get_response insertion_order ([] :: int list) = Inl IndexError
   \<and> argsort_contract stable_argsort \<and> (1 :: int) \<le> 1
   \<and> get_neighbours stable_argsort numpy_int64 [[2, 2, 2], [4, 4, 4]] [0, 1 :: int] [5, 5, 5] 1
       = Inr \<lparr>data = [[4, 4, 4]], labels = [1]\<rparr>
   \<and> labels \<lparr>data = [[4, 4, 4 :: 64 word]], labels = [1 :: int]\<rparr> \<noteq> []
   \<and> get_neighbours stable_argsort numpy_int64 [[2, 2, 2], [4, 4, 4]] [0, 1 :: int] [5, 5, 5] 0
       = Inr \<lparr>data = [], labels = []\<rparr>
   \<and> classify stable_argsort insertion_order numpy_int64 [[2, 2, 2], [4, 4, 4]] [0, 1 :: int]
       [5, 5, 5] 0 = Inl IndexError"
proof -
  have order: "items_contract (insertion_order :: (int \<times> nat) list \<Rightarrow> (int \<times> nat) list)"
    by (rule insertion_order_contract)
  have one: "get_neighbours stable_argsort numpy_int64 [[2, 2, 2], [4, 4, 4]] [0, 1 :: int]
               [5, 5, 5] 1
               = Inr \<lparr>data = [[4, 4, 4]], labels = [1]\<rparr>"
    by (simp add: scenario_neighbours [OF stable_argsort_contract] slice_to_def)
  have none: "get_neighbours stable_argsort numpy_int64 [[2, 2, 2], [4, 4, 4]] [0, 1 :: int]
               [5, 5, 5] 0
               = Inr \<lparr>data = [], labels = []\<rparr>"
    by (simp add: scenario_neighbours [OF stable_argsort_contract] slice_to_def)
  have "get_response insertion_order ([] :: int list) = Inl IndexError"
    using order
      get_response_error_iff
            [of insertion_order "[] :: int list" IndexError stable_argsort 1 numpy_int64
               "[[2, 2, 2], [4, 4, 4]]" "[0, 1 :: int]" "[5, 5, 5]"
               "\<lparr>data = [[4, 4, 4]], labels = [1]\<rparr>" insertion_order]
    by simp
  moreover have "labels \<lparr>data = [[4, 4, 4 :: 64 word]], labels = [1 :: int]\<rparr> \<noteq> []"
    using stable_argsort_contract one
      get_response_error_iff
            [of insertion_order "[] :: int list" IndexError stable_argsort 1 numpy_int64
               "[[2, 2, 2], [4, 4, 4]]" "[0, 1 :: int]" "[5, 5, 5]"
               "\<lparr>data = [[4, 4, 4]], labels = [1]\<rparr>" insertion_order]
    by simp
  moreover have "classify stable_argsort insertion_order numpy_int64 [[2, 2, 2], [4, 4, 4]]
                   [0, 1 :: int] [5, 5, 5] 0 = Inl IndexError"
    using order none
      get_response_error_iff
            [of insertion_order "[] :: int list" IndexError stable_argsort 0 numpy_int64
               "[[2, 2, 2], [4, 4, 4]]" "[0, 1 :: int]" "[5, 5, 5]"
               "\<lparr>data = [], labels = []\<rparr>" insertion_order]
    by simp
  ultimately show ?thesis
    using one none stable_argsort_contract order by simp
qed

end
